theory Spec2Isabelle
  imports Main "HOL-Library.Multiset"
begin

section \<open>The favicon cache of the sidebar (sidebar script, section FAVICON CACHE SYSTEM)\<close>

text \<open>
  The cache is the IndexedDB object store \<^verbatim>\<open>favicons\<close>, keyed by \<^verbatim>\<open>domain\<close>.
  The script variable \<^verbatim>\<open>db\<close> is null until \<^verbatim>\<open>initDB\<close> has succeeded, so the
  store is an optional map. Everything the browser decides (what a request answers, how long
  it takes, whether the connection to the database is closed, whether a store request fails,
  what \<^verbatim>\<open>new URL\<close> parses) is a field of the record \<open>browser\<close>; everything the script
  changes is a field of the record \<open>world\<close>. Strings are the UTF-8 bytes of the strings of
  the script; a blob is the string of its bytes, so \<^verbatim>\<open>blob.size\<close> is its length. Times
  are milliseconds, as \<^verbatim>\<open>Date.now()\<close> gives them.
\<close>

definition CACHE_DURATION :: int where
  "CACHE_DURATION = 7 * 24 * 60 * 60 * 1000"

record favicon_entry =
  domain :: string
  dataUrl :: string
  timestamp :: int

type_synonym blob = string

record response =
  ok :: bool
  blob :: "blob option"  \<comment> \<open>\<open>None\<close>: \<^verbatim>\<open>response.blob()\<close> rejects\<close>

record browser =
  fetch :: "string \<Rightarrow> response option"  \<comment> \<open>\<open>None\<close>: the request rejects (transport error)\<close>
  latency :: "string \<Rightarrow> nat"  \<comment> \<open>milliseconds that pass while the request is awaited\<close>
  readAsDataURL :: "blob \<Rightarrow> string option"  \<comment> \<open>\<open>None\<close>: the FileReader reports an error\<close>
  hostname :: "string \<Rightarrow> string option"  \<comment> \<open>\<^verbatim>\<open>new URL(s).hostname\<close>; \<open>None\<close>: TypeError\<close>
  closed :: "int \<Rightarrow> bool"  \<comment> \<open>at this time the connection is closed: \<^verbatim>\<open>db.transaction\<close> throws\<close>
  getFails :: "string \<Rightarrow> bool"  \<comment> \<open>the \<^verbatim>\<open>store.get\<close> request of this key ends in \<^verbatim>\<open>onerror\<close>\<close>
  putFails :: "string \<Rightarrow> bool"  \<comment> \<open>the readwrite transaction of this key ends in \<^verbatim>\<open>onerror\<close>\<close>

record world =
  clock :: int  \<comment> \<open>\<^verbatim>\<open>Date.now()\<close>\<close>
  db :: "(string \<rightharpoonup> favicon_entry) option"
  requests :: "string list"  \<comment> \<open>every address passed to \<^verbatim>\<open>fetch\<close>, oldest first\<close>
  puts :: "favicon_entry list"  \<comment> \<open>every record passed to \<^verbatim>\<open>store.put\<close>, oldest first\<close>

datatype js_error = TypeError | InvalidStateError

text \<open>
  \<^verbatim>\<open>getCachedFavicon\<close> and \<^verbatim>\<open>cacheFavicon\<close> return promises. Both call
  \<^verbatim>\<open>db.transaction\<close> in the executor of the promise with no guard around it: on a
  connection that the browser has closed the call throws, and the promise rejects with that
  error (\<open>Inl\<close>). Every other outcome resolves the promise (\<open>Inr\<close>).
\<close>

definition getCachedFavicon :: "browser \<Rightarrow> string \<Rightarrow> world \<Rightarrow> js_error + string option" where
  "getCachedFavicon env dmn w =
     (case db w of
        None \<Rightarrow> Inr None
      | Some store \<Rightarrow>
          if closed env (clock w) then Inl InvalidStateError
          else if getFails env dmn then Inr None
          else (case store dmn of
                  None \<Rightarrow> Inr None
                | Some result \<Rightarrow>
                    if clock w - timestamp result < CACHE_DURATION then Inr (Some (dataUrl result))
                    else Inr None))"

definition cacheFavicon :: "browser \<Rightarrow> string \<Rightarrow> string \<Rightarrow> world \<Rightarrow> js_error + world" where
  "cacheFavicon env dmn d w =
     (case db w of
        None \<Rightarrow> Inr w
      | Some store \<Rightarrow>
          if closed env (clock w) then Inl InvalidStateError
          else
            (let e = \<lparr>domain = dmn, dataUrl = d, timestamp = clock w\<rparr>;
                 w1 = w\<lparr>puts := puts w @ [e]\<rparr>
             in if putFails env dmn then Inr w1 else Inr (w1\<lparr>db := Some (store(dmn \<mapsto> e))\<rparr>)))"

definition sources :: "string \<Rightarrow> string list" where
  "sources dmn =
     [''https://icons.duckduckgo.com/ip3/'' @ dmn @ ''.ico'',
      ''https://www.google.com/s2/favicons?domain='' @ dmn @ ''&sz=128'',
      ''https://favicon.io/favicon/'' @ dmn,
      ''https://'' @ dmn @ ''/favicon.ico'',
      ''https://'' @ dmn @ ''/apple-touch-icon.png'',
      ''https://'' @ dmn @ ''/apple-touch-icon-precomposed.png'']"

text \<open>
  One turn of the loop of \<^verbatim>\<open>fetchAndCacheFavicon\<close>: the request is logged and its
  latency passes, then the body of the \<^verbatim>\<open>try\<close> either reaches \<^verbatim>\<open>return dataUrl\<close>
  or leaves through a \<^verbatim>\<open>continue\<close>. The \<^verbatim>\<open>continue\<close> of the \<^verbatim>\<open>catch\<close> is
  taken for every rejection inside the \<^verbatim>\<open>try\<close>, also for the one of
  \<^verbatim>\<open>await cacheFavicon(domain, dataUrl)\<close>.
\<close>

definition await_fetch :: "browser \<Rightarrow> string \<Rightarrow> world \<Rightarrow> world" where
  "await_fetch env u w = w\<lparr>clock := clock w + int (latency env u), requests := requests w @ [u]\<rparr>"

fun fetch_loop :: "browser \<Rightarrow> string \<Rightarrow> string list \<Rightarrow> world \<Rightarrow> string option \<times> world" where
  "fetch_loop env dmn [] w = (None, w)"
| "fetch_loop env dmn (u # us) w =
     (let w1 = await_fetch env u w in
      case fetch env u of
        None \<Rightarrow> fetch_loop env dmn us w1
      | Some r \<Rightarrow>
          if \<not> ok r then fetch_loop env dmn us w1
          else (case blob r of
                  None \<Rightarrow> fetch_loop env dmn us w1
                | Some b \<Rightarrow>
                    if length b < 100 then fetch_loop env dmn us w1
                    else (case readAsDataURL env b of
                            None \<Rightarrow> fetch_loop env dmn us w1
                          | Some d \<Rightarrow>
                              (case cacheFavicon env dmn d w1 of
                                 Inl e \<Rightarrow> fetch_loop env dmn us w1
                               | Inr w2 \<Rightarrow> (Some d, w2)))))"

definition fetchAndCacheFavicon :: "browser \<Rightarrow> string \<Rightarrow> world \<Rightarrow> string option \<times> world" where
  "fetchAndCacheFavicon env dmn w = fetch_loop env dmn (sources dmn) w"

text \<open>
  \<^verbatim>\<open>getFavicon\<close> is a \<^verbatim>\<open>try\<close> around the whole body with \<^verbatim>\<open>catch (e) { return null }\<close>.
  The body is \<open>getFavicon_try\<close>; it throws when \<^verbatim>\<open>new URL\<close> throws and when the promise
  of \<^verbatim>\<open>getCachedFavicon\<close> rejects. \<^verbatim>\<open>if (cached)\<close> is the truth value of a string,
  false for the empty one.
\<close>

definition getFavicon_try :: "browser \<Rightarrow> string \<Rightarrow> world \<Rightarrow> js_error + string option \<times> world" where
  "getFavicon_try env siteUrl w =
     (case hostname env siteUrl of
        None \<Rightarrow> Inl TypeError
      | Some dmn \<Rightarrow>
          (case getCachedFavicon env dmn w of
             Inl e \<Rightarrow> Inl e
           | Inr (Some cached) \<Rightarrow>
               if cached \<noteq> [] then Inr (Some cached, w) else Inr (fetchAndCacheFavicon env dmn w)
           | Inr None \<Rightarrow> Inr (fetchAndCacheFavicon env dmn w)))"

definition getFavicon :: "browser \<Rightarrow> string \<Rightarrow> world \<Rightarrow> string option \<times> world" where
  "getFavicon env siteUrl w =
     (case getFavicon_try env siteUrl w of Inl e \<Rightarrow> (None, w) | Inr res \<Rightarrow> res)"

text \<open>
  What a source yields when its answer is accepted: the data address of a successful answer
  of at least 100 bytes. \<open>None\<close> is every way in which the loop goes on to the next source
  before it reaches \<^verbatim>\<open>cacheFavicon\<close>.
\<close>

definition accepted :: "browser \<Rightarrow> string \<Rightarrow> string option" where
  "accepted env u =
     (case fetch env u of
        None \<Rightarrow> None
      | Some r \<Rightarrow>
          if \<not> ok r then None
          else (case blob r of
                  None \<Rightarrow> None
                | Some b \<Rightarrow> if length b < 100 then None else readAsDataURL env b))"

definition elapsed :: "browser \<Rightarrow> string list \<Rightarrow> int" where
  "elapsed env us = int (sum_list (map (latency env) us))"

text \<open>The world after the requests \<open>us\<close> have been awaited one after the other.\<close>

definition advance :: "browser \<Rightarrow> string list \<Rightarrow> world \<Rightarrow> world" where
  "advance env us w = w\<lparr>clock := clock w + elapsed env us, requests := requests w @ us\<rparr>"

section \<open>The site registry (sidebar script, section MAIN APP LOGIC)\<close>

subsection \<open>Values of an imported file\<close>

text \<open>
  What \<^verbatim>\<open>JSON.parse\<close> returns. An object is the list of its bindings, one per key.
  Of a number the script only asks whether it is zero, so numbers are integers.
  \<open>get_prop v k\<close> is the property read \<^verbatim>\<open>v[k]\<close> for the keys the script reads
  (\<^verbatim>\<open>id\<close>, \<^verbatim>\<open>name\<close>, \<^verbatim>\<open>url\<close>, \<^verbatim>\<open>color\<close>), with \<open>None\<close> for
  \<^verbatim>\<open>undefined\<close>: only an object has them.
\<close>

datatype jsval =
  JNull | JBool bool | JNum int | JStr string | JArr "jsval list" | JObj "(string \<times> jsval) list"

fun truthy :: "jsval \<Rightarrow> bool" where
  "truthy JNull = False"
| "truthy (JBool b) = b"
| "truthy (JNum n) = (n \<noteq> 0)"
| "truthy (JStr s) = (s \<noteq> [])"
| "truthy (JArr xs) = True"
| "truthy (JObj kvs) = True"

fun get_prop :: "jsval \<Rightarrow> string \<Rightarrow> jsval option" where
  "get_prop (JObj kvs) k = map_of kvs k"
| "get_prop v k = None"

fun typeof_string :: "jsval option \<Rightarrow> bool" where
  "typeof_string (Some (JStr s)) = True"
| "typeof_string v = False"

fun string_of :: "jsval option \<Rightarrow> string" where
  "string_of (Some (JStr s)) = s"
| "string_of v = []"

subsection \<open>Sites and the state of the page\<close>

text \<open>
  A site keeps whatever value the file gave for \<^verbatim>\<open>id\<close> and \<^verbatim>\<open>color\<close>, so these two
  fields are values; \<^verbatim>\<open>name\<close> and \<^verbatim>\<open>url\<close> are strings on every path that builds a
  site. The script's \<^verbatim>\<open>===\<close> on ids is equality of values here (on objects and arrays the
  script compares references).
\<close>

record site =
  id' :: jsval
  name :: string
  url :: string
  color :: jsval

text \<open>
  The script's variables. A button is known by the \<^verbatim>\<open>data-index\<close> it got when the bar was
  rendered; the active button by its \<^verbatim>\<open>data-id\<close>. \<open>timers\<close> holds the pending
  timeouts of the window, each with its handle and the time it is due; all of them run
  \<^verbatim>\<open>checkHibernate\<close>.
\<close>

record app =
  sites :: "site list"
  activeButton :: "string option"
  selectedColor :: string
  editingSiteId :: "jsval option"
  currentSiteUrl :: "string option"
  draggedItem :: "nat option"
  draggedIndex :: int
  hibernateTimer :: "nat option"
  isHibernated :: bool
  lastActivityTime :: int
  hibernatedUrl :: "string option"
  webFrame_src :: string
  overlayShown :: bool
  timers :: "(nat \<times> int) list"
  lastTimerId :: nat

definition DEFAULT_SITES :: "site list" where
  "DEFAULT_SITES =
     [\<lparr>id' = JStr ''chatgpt'', name = ''ChatGPT'', url = ''https://chat.openai.com'', color = JStr ''#10a37f''\<rparr>,
      \<lparr>id' = JStr ''youtube'', name = ''YouTube'', url = ''https://www.youtube.com'', color = JStr ''#FF0000''\<rparr>,
      \<lparr>id' = JStr ''whatsapp'', name = ''WhatsApp'', url = ''https://web.whatsapp.com'', color = JStr ''#25D366''\<rparr>,
      \<lparr>id' = JStr ''github'', name = ''GitHub'', url = ''https://github.com'', color = JStr ''#24292e''\<rparr>,
      \<lparr>id' = JStr ''translate'', name = ''Google Translate'', url = ''https://translate.google.com'',
        color = JStr ''#4285F4''\<rparr>,
      \<lparr>id' = JStr ''claude'', name = ''Claude'', url = ''https://claude.ai'', color = JStr ''#D4A574''\<rparr>,
      \<lparr>id' = JStr ''gemini'', name = ''Gemini'', url = ''https://gemini.google.com'', color = JStr ''#1a73e8''\<rparr>]"

text \<open>The variables as the script initialises them, at time \<open>now\<close>, with the given sites.\<close>

definition initial_app :: "int \<Rightarrow> site list \<Rightarrow> app" where
  "initial_app now ss =
     \<lparr>sites = ss, activeButton = None, selectedColor = ''#4a9eff'', editingSiteId = None,
      currentSiteUrl = None, draggedItem = None, draggedIndex = - 1, hibernateTimer = None,
      isHibernated = False, lastActivityTime = now, hibernatedUrl = None, webFrame_src = [],
      overlayShown = False, timers = [], lastTimerId = 0\<rparr>"

subsection \<open>Identifiers\<close>

fun digits :: "nat \<Rightarrow> string" where
  "digits n =
     (if n < 10 then [''0123456789'' ! n] else digits (n div 10) @ [''0123456789'' ! (n mod 10)])"

text \<open>
  \<^verbatim>\<open>'site_' + Date.now() + '_' + Math.random().toString(36).substr(2, 9)\<close>: the time is
  \<open>now\<close>, the random suffix is the argument \<open>r\<close>.
\<close>

definition generateId :: "int \<Rightarrow> string \<Rightarrow> string" where
  "generateId now r =
     ''site_'' @ (if now < 0 then ''-'' else []) @ digits (nat \<bar>now\<bar>) @ ''_'' @ r"

subsection \<open>Adding, editing and deleting\<close>

text \<open>
  \<^verbatim>\<open>String.prototype.trim\<close> removes white space and line terminators at both ends.
  \<open>white_space\<close> lists them in UTF-8: U+0009 to U+000D, U+0020, U+00A0, U+1680, U+2000 to
  U+200A, U+2028, U+2029, U+202F, U+205F, U+3000 and U+FEFF. \<open>strip\<close> removes leading
  members of a list of byte sequences; at the end of a string the reversed sequences are
  removed from the reversed string.
\<close>

definition white_space :: "string list" where
  "white_space =
     [[CHR 0x09], [CHR 0x0A], [CHR 0x0B], [CHR 0x0C], [CHR 0x0D], [CHR 0x20],
      [CHR 0xC2, CHR 0xA0],
      [CHR 0xE1, CHR 0x9A, CHR 0x80],
      [CHR 0xE2, CHR 0x80, CHR 0x80], [CHR 0xE2, CHR 0x80, CHR 0x81], [CHR 0xE2, CHR 0x80, CHR 0x82],
      [CHR 0xE2, CHR 0x80, CHR 0x83], [CHR 0xE2, CHR 0x80, CHR 0x84], [CHR 0xE2, CHR 0x80, CHR 0x85],
      [CHR 0xE2, CHR 0x80, CHR 0x86], [CHR 0xE2, CHR 0x80, CHR 0x87], [CHR 0xE2, CHR 0x80, CHR 0x88],
      [CHR 0xE2, CHR 0x80, CHR 0x89], [CHR 0xE2, CHR 0x80, CHR 0x8A],
      [CHR 0xE2, CHR 0x80, CHR 0xA8], [CHR 0xE2, CHR 0x80, CHR 0xA9], [CHR 0xE2, CHR 0x80, CHR 0xAF],
      [CHR 0xE2, CHR 0x81, CHR 0x9F],
      [CHR 0xE3, CHR 0x80, CHR 0x80],
      [CHR 0xEF, CHR 0xBB, CHR 0xBF]]"

fun strip :: "string list \<Rightarrow> string \<Rightarrow> string" where
  "strip ws [] = []"
| "strip ws (c # s) =
     (case find (\<lambda>p. p \<noteq> [] \<and> take (length p) (c # s) = p) ws of
        None \<Rightarrow> c # s
      | Some p \<Rightarrow> strip ws (drop (length p - 1) s))"

definition trim :: "string \<Rightarrow> string" where
  "trim s = rev (strip (map rev white_space) (rev (strip white_space s)))"

definition startsWith :: "string \<Rightarrow> string \<Rightarrow> bool" where
  "startsWith s p = (take (length p) s = p)"

fun findIndex :: "('a \<Rightarrow> bool) \<Rightarrow> 'a list \<Rightarrow> nat option" where
  "findIndex P [] = None"
| "findIndex P (x # xs) = (if P x then Some 0 else map_option Suc (findIndex P xs))"

text \<open>
  \<^verbatim>\<open>saveSite\<close>, with the two input fields as arguments. The first \<^verbatim>\<open>return\<close> leaves
  everything as it is (the dialog stays open); otherwise \<^verbatim>\<open>closeModal\<close> resets
  \<^verbatim>\<open>editingSiteId\<close>. \<^verbatim>\<open>if (editingSiteId)\<close> is the truth value of an id.
\<close>

definition saveSite :: "int \<Rightarrow> string \<Rightarrow> string \<Rightarrow> string \<Rightarrow> app \<Rightarrow> app" where
  "saveSite now r siteName siteUrl st =
     (let nm = trim siteName; u0 = trim siteUrl in
      if nm = [] \<or> u0 = [] then st
      else
        let u = (if \<not> startsWith u0 ''http://'' \<and> \<not> startsWith u0 ''https://''
                 then ''https://'' @ u0 else u0);
            editing = (case editingSiteId st of None \<Rightarrow> False | Some i \<Rightarrow> truthy i);
            st1 =
              (if editing then
                 (case findIndex (\<lambda>s. Some (id' s) = editingSiteId st) (sites st) of
                    None \<Rightarrow> st
                  | Some k \<Rightarrow>
                      st\<lparr>sites := (sites st)[k := (sites st ! k)
                            \<lparr>name := nm, url := u, color := JStr (selectedColor st)\<rparr>]\<rparr>)
               else
                 st\<lparr>sites := sites st @
                      [\<lparr>id' = JStr (generateId now r), name = nm, url = u,
                        color = JStr (selectedColor st)\<rparr>]\<rparr>)
        in st1\<lparr>editingSiteId := None\<rparr>)"

text \<open>
  The delete entry of the context menu of \<open>s\<close>: the site is filtered out by its id, and the
  frame is reset when the active button carries that id.
\<close>

definition deleteSite :: "site \<Rightarrow> app \<Rightarrow> app" where
  "deleteSite s st =
     (let st1 = st\<lparr>sites := filter (\<lambda>x. id' x \<noteq> id' s) (sites st)\<rparr> in
      case activeButton st1 of
        None \<Rightarrow> st1
      | Some b \<Rightarrow>
          if JStr b = id' s
          then st1\<lparr>webFrame_src := ''about:blank'', activeButton := None, currentSiteUrl := None\<rparr>
          else st1)"

subsection \<open>Drag and drop\<close>

text \<open>
  \<^verbatim>\<open>Array.prototype.splice(start, deleteCount, ...items)\<close>: the removed elements and the
  array afterwards.
\<close>

definition splice_js :: "int \<Rightarrow> int \<Rightarrow> 'a list \<Rightarrow> 'a list \<Rightarrow> 'a list \<times> 'a list" where
  "splice_js start deleteCount items xs =
     (let len = int (length xs);
          s = nat (if start < 0 then max (len + start) 0 else min start len);
          n = nat (min (max deleteCount 0) (len - int s))
      in (take n (drop s xs), take s xs @ items @ drop (s + n) xs))"

definition handleDragStart :: "nat option \<Rightarrow> app \<Rightarrow> app" where
  "handleDragStart button st =
     (case button of
        None \<Rightarrow> st
      | Some i \<Rightarrow> st\<lparr>draggedItem := Some i, draggedIndex := int i\<rparr>)"

definition handleDragEnd :: "app \<Rightarrow> app" where
  "handleDragEnd st = st\<lparr>draggedItem := None, draggedIndex := - 1\<rparr>"

text \<open>
  \<^verbatim>\<open>handleDrop\<close> on the button \<open>target\<close>; \<open>isAbove\<close> is the comparison of the pointer
  with the middle of that button. Under the guard of the reordering the first
  \<^verbatim>\<open>splice\<close> removes exactly one site, so the empty case of the destructuring is never
  taken.
\<close>

definition handleDrop :: "nat option \<Rightarrow> bool \<Rightarrow> app \<Rightarrow> app" where
  "handleDrop target isAbove st =
     (case target of
        None \<Rightarrow> st
      | Some t \<Rightarrow>
          if draggedItem st = None \<or> draggedItem st = Some t then st
          else
            let targetIndex = int t;
                newIndex0 = (if isAbove then targetIndex else targetIndex + 1);
                newIndex1 = (if draggedIndex st < targetIndex then newIndex0 - 1 else newIndex0);
                newIndex = max 0 (min newIndex1 (int (length (sites st)) - 1))
            in if draggedIndex st \<noteq> newIndex \<and> 0 \<le> draggedIndex st
                  \<and> draggedIndex st < int (length (sites st))
               then (case splice_js (draggedIndex st) 1 [] (sites st) of
                       (movedSite # _, rest) \<Rightarrow> st\<lparr>sites := snd (splice_js newIndex 0 [movedSite] rest)\<rparr>
                     | ([], rest) \<Rightarrow> st\<lparr>sites := rest\<rparr>)
               else st)"

subsection \<open>Import and export\<close>



definition valid_candidate :: "jsval \<Rightarrow> bool" where
  "valid_candidate c =
     (truthy c \<and> typeof_string (get_prop c ''name'') \<and> typeof_string (get_prop c ''url''))"

definition or_default :: "jsval option \<Rightarrow> jsval \<Rightarrow> jsval" where
  "or_default v d = (case v of None \<Rightarrow> d | Some x \<Rightarrow> if truthy x then x else d)"

text \<open>
  The \<^verbatim>\<open>map\<close> after the \<^verbatim>\<open>filter\<close>. \<^verbatim>\<open>generateId()\<close> is called only for a
  candidate whose \<^verbatim>\<open>id\<close> is missing or false; \<open>k\<close> counts these calls and \<open>rnd k\<close> is
  the random suffix of call \<open>k\<close>.
\<close>

fun to_sites :: "int \<Rightarrow> (nat \<Rightarrow> string) \<Rightarrow> nat \<Rightarrow> jsval list \<Rightarrow> site list" where
  "to_sites now rnd k [] = []"
| "to_sites now rnd k (c # cs) =
     (let kept = (case get_prop c ''id'' of None \<Rightarrow> False | Some v \<Rightarrow> truthy v) in
      \<lparr>id' = (if kept then or_default (get_prop c ''id'') JNull else JStr (generateId now (rnd k))),
       name = string_of (get_prop c ''name''),
       url = string_of (get_prop c ''url''),
       color = or_default (get_prop c ''color'') (JStr ''#4a9eff'')\<rparr>
      # to_sites now rnd (if kept then k else Suc k) cs)"

definition validSites :: "int \<Rightarrow> (nat \<Rightarrow> string) \<Rightarrow> jsval list \<Rightarrow> site list" where
  "validSites now rnd cs = to_sites now rnd 0 (filter valid_candidate cs)"

datatype import_result = NoFile | ReadFailed | NothingValid | Imported

text \<open>
  \<^verbatim>\<open>handleFileImport\<close>. \<open>file\<close> is \<open>None\<close> when no file was chosen, \<open>Some None\<close>
  when reading or parsing it throws, and the parsed value otherwise; \<open>replace\<close> is the
  answer to \<^verbatim>\<open>confirm\<close>. A value that is not an array throws as well.
\<close>

definition handleFileImport ::
  "int \<Rightarrow> (nat \<Rightarrow> string) \<Rightarrow> jsval option option \<Rightarrow> bool \<Rightarrow> app \<Rightarrow> import_result \<times> app" where
  "handleFileImport now rnd file replace st =
     (case file of
        None \<Rightarrow> (NoFile, st)
      | Some None \<Rightarrow> (ReadFailed, st)
      | Some (Some (JArr importedSites)) \<Rightarrow>
          (let valid = validSites now rnd importedSites in
           if length valid = 0 then (NothingValid, st)
           else if replace then (Imported, st\<lparr>sites := valid\<rparr>)
           else
             (let existingUrls = set (map url (sites st));
                  newSites = filter (\<lambda>s. url s \<notin> existingUrls) valid
              in (Imported, st\<lparr>sites := sites st @ newSites\<rparr>)))
      | Some (Some other) \<Rightarrow> (ReadFailed, st))"

section \<open>Hibernation after inactivity (sidebar script, section AUTO-HIBERNATE)\<close>

definition HIBERNATE_TIMEOUT :: int where
  "HIBERNATE_TIMEOUT = 5 * 60 * 1000"

text \<open>The truth value of a variable that holds a string or null.\<close>

fun is_set :: "string option \<Rightarrow> bool" where
  "is_set None = False"
| "is_set (Some u) = (u \<noteq> [])"

text \<open>
  \<^verbatim>\<open>setTimeout(checkHibernate, delay)\<close> at time \<open>now\<close> returns a new positive handle;
  \<^verbatim>\<open>clearTimeout\<close> drops the timeout with the given handle.
\<close>

definition setTimeout :: "int \<Rightarrow> int \<Rightarrow> app \<Rightarrow> nat \<times> app" where
  "setTimeout delay now st =
     (let h = Suc (lastTimerId st)
      in (h, st\<lparr>lastTimerId := h, timers := timers st @ [(h, now + delay)]\<rparr>))"

definition clearTimeout :: "nat \<Rightarrow> app \<Rightarrow> app" where
  "clearTimeout h st = st\<lparr>timers := filter (\<lambda>t. fst t \<noteq> h) (timers st)\<rparr>"

definition hibernate :: "app \<Rightarrow> app" where
  "hibernate st =
     (if isHibernated st \<or> \<not> is_set (currentSiteUrl st) then st
      else st\<lparr>isHibernated := True, hibernatedUrl := currentSiteUrl st,
              webFrame_src := ''about:blank'', overlayShown := True\<rparr>)"

definition wakeFromHibernate :: "app \<Rightarrow> app" where
  "wakeFromHibernate st =
     (if \<not> isHibernated st then st
      else
        let st1 = st\<lparr>isHibernated := False, overlayShown := False\<rparr> in
        case hibernatedUrl st1 of
          None \<Rightarrow> st1
        | Some u \<Rightarrow> if u \<noteq> [] then st1\<lparr>webFrame_src := u, hibernatedUrl := None\<rparr> else st1)"

definition checkHibernate :: "int \<Rightarrow> app \<Rightarrow> app" where
  "checkHibernate now st =
     (let inactiveTime = now - lastActivityTime st in
      if HIBERNATE_TIMEOUT \<le> inactiveTime \<and> is_set (currentSiteUrl st) \<and> \<not> isHibernated st
      then hibernate st else st)"

definition resetActivityTimer :: "int \<Rightarrow> app \<Rightarrow> app" where
  "resetActivityTimer now st =
     (let st1 = st\<lparr>lastActivityTime := now\<rparr>;
          st2 = (if isHibernated st1 then wakeFromHibernate st1 else st1);
          st3 = (case hibernateTimer st2 of
                   None \<Rightarrow> st2
                 | Some h \<Rightarrow> if h \<noteq> 0 then clearTimeout h st2 else st2);
          (h, st4) = setTimeout HIBERNATE_TIMEOUT now st3
      in st4\<lparr>hibernateTimer := Some h\<rparr>)"

text \<open>
  The window runs the first pending timeout that is due at time \<open>now\<close>: the timeout is
  spent and its callback \<^verbatim>\<open>checkHibernate\<close> runs. Nothing happens when none is due.
\<close>

definition timerFires :: "int \<Rightarrow> app \<Rightarrow> app" where
  "timerFires now st =
     (case filter (\<lambda>t. snd t \<le> now) (timers st) of
        [] \<Rightarrow> st
      | t # _ \<Rightarrow> checkHibernate now (st\<lparr>timers := remove1 t (timers st)\<rparr>))"

section \<open>The documented rules and invariants the code is compared with\<close>

text \<open>
  The position of a drop as the description of the reordering gives it: the index of the
  target for a drop above it, one more for a drop below it, one less when the dragged site
  comes before the target, clamped to the indices of the list of \<open>n\<close> sites.
\<close>

definition documented_drop_index :: "nat \<Rightarrow> nat \<Rightarrow> nat \<Rightarrow> bool \<Rightarrow> int" where
  "documented_drop_index n d t isAbove =
     max 0 (min ((if isAbove then int t else int t + 1) - (if d < t then 1 else 0)) (int n - 1))"

text \<open>
  The invariant of the data model: the ids of the registry are distinct, and every site has
  a name, an address, and an address that starts with one of the two schemes.
\<close>

definition has_scheme :: "string \<Rightarrow> bool" where
  "has_scheme u = (startsWith u ''http://'' \<or> startsWith u ''https://'')"

definition site_ok :: "site \<Rightarrow> bool" where
  "site_ok s = (name s \<noteq> [] \<and> url s \<noteq> [] \<and> has_scheme (url s))"

definition registry_ok :: "site list \<Rightarrow> bool" where
  "registry_ok ss = (distinct (map id' ss) \<and> list_all site_ok ss)"

text \<open>\<^verbatim>\<open>if (editingSiteId)\<close> in \<^verbatim>\<open>saveSite\<close>: the dialog edits a site.\<close>

definition editing :: "app \<Rightarrow> bool" where
  "editing st = (case editingSiteId st of None \<Rightarrow> False | Some i \<Rightarrow> truthy i)"

text \<open>
  The ids and colours of a registry are true values; an import gives every site it builds
  such an id and colour, and so does \<^verbatim>\<open>saveSite\<close> when a colour is selected.
\<close>

definition fields_truthy :: "site list \<Rightarrow> bool" where
  "fields_truthy ss = list_all (\<lambda>s. truthy (id' s) \<and> truthy (color s)) ss"

section \<open>Data for the examples\<close>

text \<open>
  A browser in which the first source of \<^verbatim>\<open>example.org\<close> answers with a failure and
  the second with 120 bytes, and in which nothing answers for \<^verbatim>\<open>dead.test\<close>; the same
  browser with a connection that is closed 40 ms after the time of the examples; a cache
  that holds an entry of the given age; an empty cache.
\<close>

definition demo_browser :: browser where
  "demo_browser =
     \<lparr>fetch = (\<lambda>u.
        if u = ''https://icons.duckduckgo.com/ip3/example.org.ico'' then Some \<lparr>ok = False, blob = None\<rparr>
        else if u = ''https://www.google.com/s2/favicons?domain=example.org&sz=128''
          then Some \<lparr>ok = True, blob = Some (replicate 120 CHR ''x'')\<rparr>
        else None),
      latency = (\<lambda>u. 40),
      readAsDataURL = (\<lambda>b. Some (''data:image/png;base64,'' @ b)),
      hostname = (\<lambda>s.
        if s = ''https://example.org/page'' then Some ''example.org''
        else if s = ''https://dead.test'' then Some ''dead.test''
        else None),
      closed = (\<lambda>t. False),
      getFails = (\<lambda>k. False),
      putFails = (\<lambda>k. False)\<rparr>"

definition demo_closing_browser :: browser where
  "demo_closing_browser = demo_browser\<lparr>closed := (\<lambda>t. 1700000000040 \<le> t)\<rparr>"

definition demo_world :: "int \<Rightarrow> world" where
  "demo_world age =
     \<lparr>clock = 1700000000000,
      db = Some [''example.org'' \<mapsto>
             \<lparr>domain = ''example.org'', dataUrl = ''data:cached'', timestamp = 1700000000000 - age\<rparr>],
      requests = [],
      puts = []\<rparr>"

definition empty_world :: world where
  "empty_world = \<lparr>clock = 1700000000000, db = Some Map.empty, requests = [], puts = []\<rparr>"

text \<open>Sites and imported files.\<close>

definition site_named :: "string \<Rightarrow> site" where
  "site_named s = \<lparr>id' = JStr s, name = s, url = ''https://'' @ s @ ''.test'', color = JStr ''#4a9eff''\<rparr>"

definition demo_random :: "nat \<Rightarrow> string" where
  "demo_random k = ''r''"

definition demo_import :: "jsval list" where
  "demo_import =
     [JObj [(''name'', JStr ''X''), (''url'', JStr ''https://x.test'')],
      JNum 5,
      JObj [(''name'', JStr ''Y'')],
      JObj [(''id'', JStr ''hub''), (''name'', JStr ''Hub''), (''url'', JStr ''https://github.com''),
            (''color'', JStr ''#000000'')]]"

definition demo_twins :: "jsval list" where
  "demo_twins =
     [JObj [(''id'', JStr ''n1''), (''name'', JStr ''First''), (''url'', JStr ''https://new.test'')],
      JObj [(''id'', JStr ''n2''), (''name'', JStr ''Second''), (''url'', JStr ''https://new.test'')]]"

definition demo_bad_import :: "jsval list" where
  "demo_bad_import = [JObj [(''name'', JStr []), (''url'', JStr ''example.com'')]]"

definition demo_same_id :: "jsval list" where
  "demo_same_id =
     [JObj [(''id'', JStr ''github''), (''name'', JStr ''Hub''), (''url'', JStr ''https://hub.test'')]]"

text \<open>A page with no site loaded and a page with a site loaded.\<close>

definition demo_blank :: app where
  "demo_blank = initial_app 0 DEFAULT_SITES"

definition demo_loaded :: app where
  "demo_loaded = (initial_app 0 DEFAULT_SITES)\<lparr>currentSiteUrl := Some ''https://github.com''\<rparr>"




definition demo_taken :: app where
  "demo_taken =
     initial_app 0 [\<lparr>id' = JStr ''site_1700000000000_k3x9q2m1z'', name = ''Old'',
       url = ''https://old.test'', color = JStr ''#4a9eff''\<rparr>]"

section \<open>Properties of the favicon cache\<close>

lemma fetch_loop_step_skip:
  "accepted env u = None \<Longrightarrow> fetch_loop env dmn (u # us) w = fetch_loop env dmn us (await_fetch env u w)"
  by (auto simp: accepted_def Let_def split: option.splits if_splits)

lemma fetch_loop_step_throw:
  "accepted env u = Some d \<Longrightarrow> cacheFavicon env dmn d (await_fetch env u w) = Inl e \<Longrightarrow>
   fetch_loop env dmn (u # us) w = fetch_loop env dmn us (await_fetch env u w)"
  by (auto simp: accepted_def Let_def split: option.splits if_splits)

lemma fetch_loop_step_take:
  "accepted env u = Some d \<Longrightarrow> cacheFavicon env dmn d (await_fetch env u w) = Inr w2 \<Longrightarrow>
   fetch_loop env dmn (u # us) w = (Some d, w2)"
  by (auto simp: accepted_def Let_def split: option.splits if_splits)

declare fetch_loop.simps(2) [simp del]

text \<open>A turn of the loop either goes on with the next source or ends the loop.\<close>

lemma fetch_loop_turn:
  "fetch_loop env dmn (u # us) w = fetch_loop env dmn us (await_fetch env u w)
   \<or> (\<exists>d w2. accepted env u = Some d \<and> cacheFavicon env dmn d (await_fetch env u w) = Inr w2
         \<and> fetch_loop env dmn (u # us) w = (Some d, w2))"
proof (cases "accepted env u")
  case None
  then show ?thesis by (simp add: fetch_loop_step_skip)
next
  case (Some d)
  show ?thesis
  proof (cases "cacheFavicon env dmn d (await_fetch env u w)")
    case (Inl e)
    with Some show ?thesis by (simp add: fetch_loop_step_throw)
  next
    case (Inr w2)
    with Some show ?thesis by (simp add: fetch_loop_step_take)
  qed
qed

lemma elapsed_Nil: "elapsed env [] = 0"
  by (simp add: elapsed_def)

lemma elapsed_Cons: "elapsed env (u # us) = int (latency env u) + elapsed env us"
  by (simp add: elapsed_def)

lemma advance_Nil: "advance env [] w = w"
  by (simp add: advance_def elapsed_Nil)

lemma advance_Cons: "advance env (u # us) w = advance env us (await_fetch env u w)"
  by (simp add: advance_def await_fetch_def elapsed_Cons)

lemma puts_advance: "puts (advance env us w) = puts w"
  by (simp add: advance_def)

lemma db_advance: "db (advance env us w) = db w"
  by (simp add: advance_def)

lemma requests_advance: "requests (advance env us w) = requests w @ us"
  by (simp add: advance_def)

lemma cacheFavicon_Inr:
  assumes "cacheFavicon env dmn d w = Inr w2"
  shows "requests w2 = requests w"
    and "clock w2 = clock w"
    and "length (puts w2) \<le> Suc (length (puts w))"
    and "db w2 = db w \<or> (\<exists>store e. db w = Some store \<and> db w2 = Some (store(dmn \<mapsto> e)))"
  using assms
  by (auto simp: cacheFavicon_def Let_def split: option.splits if_splits)

lemma cacheFavicon_written:
  fixes w :: world
  assumes "db w = Some store" "\<not> closed env (clock w)" "\<not> putFails env dmn"
  shows "cacheFavicon env dmn d w =
     Inr (w\<lparr>db := Some (store(dmn \<mapsto> \<lparr>domain = dmn, dataUrl = d, timestamp = clock w\<rparr>)),
            puts := puts w @ [\<lparr>domain = dmn, dataUrl = d, timestamp = clock w\<rparr>]\<rparr>)"
  using assms by (simp add: cacheFavicon_def Let_def)

lemma fetch_loop_all_skipped:
  "\<forall>u\<in>set us. accepted env u = None \<Longrightarrow> fetch_loop env dmn us w = (None, advance env us w)"
proof (induction us arbitrary: w)
  case Nil
  show ?case by (simp add: advance_Nil)
next
  case (Cons u us)
  from Cons.prems have "accepted env u = None" by simp
  then have "fetch_loop env dmn (u # us) w = fetch_loop env dmn us (await_fetch env u w)"
    by (rule fetch_loop_step_skip)
  also have "\<dots> = (None, advance env us (await_fetch env u w))"
    using Cons.prems by (intro Cons.IH) simp
  finally show ?case by (simp add: advance_Cons)
qed

text \<open>
  The first accepted source wins when the write that follows it does not throw; when it
  throws, the loop goes on behind that source as if it had been rejected.
\<close>

lemma fetch_loop_first_accepted:
  "\<forall>u\<in>set pre. accepted env u = None \<Longrightarrow> accepted env v = Some d \<Longrightarrow>
   cacheFavicon env dmn d (advance env (pre @ [v]) w) = Inr w2 \<Longrightarrow>
   fetch_loop env dmn (pre @ v # post) w = (Some d, w2)"
proof (induction pre arbitrary: w)
  case Nil
  then show ?case
    by (simp add: fetch_loop_step_take advance_Cons advance_Nil)
next
  case (Cons u pre)
  from Cons.prems have "accepted env u = None" by simp
  then have "fetch_loop env dmn ((u # pre) @ v # post) w
      = fetch_loop env dmn (pre @ v # post) (await_fetch env u w)"
    by (simp add: fetch_loop_step_skip)
  also have "\<dots> = (Some d, w2)"
    using Cons.prems by (intro Cons.IH) (simp_all add: advance_Cons)
  finally show ?case .
qed

lemma fetch_loop_write_throws:
  "\<forall>u\<in>set pre. accepted env u = None \<Longrightarrow> accepted env v = Some d \<Longrightarrow>
   cacheFavicon env dmn d (advance env (pre @ [v]) w) = Inl e \<Longrightarrow>
   fetch_loop env dmn (pre @ v # post) w = fetch_loop env dmn post (advance env (pre @ [v]) w)"
proof (induction pre arbitrary: w)
  case Nil
  then show ?case
    by (simp add: fetch_loop_step_throw advance_Cons advance_Nil)
next
  case (Cons u pre)
  from Cons.prems have "accepted env u = None" by simp
  then have "fetch_loop env dmn ((u # pre) @ v # post) w
      = fetch_loop env dmn (pre @ v # post) (await_fetch env u w)"
    by (simp add: fetch_loop_step_skip)
  also have "\<dots> = fetch_loop env dmn post (advance env (pre @ [v]) (await_fetch env u w))"
    using Cons.prems by (intro Cons.IH) (simp_all add: advance_Cons)
  finally show ?case by (simp add: advance_Cons)
qed

lemma fetch_loop_puts_le:
  "length (puts (snd (fetch_loop env dmn us w))) \<le> Suc (length (puts w))"
proof (induction us arbitrary: w)
  case Nil
  show ?case by simp
next
  case (Cons u us)
  from fetch_loop_turn [of env dmn u us w] show ?case
  proof
    assume "fetch_loop env dmn (u # us) w = fetch_loop env dmn us (await_fetch env u w)"
    with Cons.IH [of "await_fetch env u w"] show ?thesis
      by (simp add: await_fetch_def)
  next
    assume "\<exists>d w2. accepted env u = Some d \<and> cacheFavicon env dmn d (await_fetch env u w) = Inr w2
         \<and> fetch_loop env dmn (u # us) w = (Some d, w2)"
    then obtain d w2 where "cacheFavicon env dmn d (await_fetch env u w) = Inr w2"
      "fetch_loop env dmn (u # us) w = (Some d, w2)" by blast
    with cacheFavicon_Inr(3) [of env dmn d "await_fetch env u w" w2] show ?thesis
      by (simp add: await_fetch_def)
  qed
qed

lemma fetch_loop_requests:
  "\<exists>rest. requests (snd (fetch_loop env dmn us w)) = requests w @ rest"
proof (induction us arbitrary: w)
  case Nil
  show ?case by simp
next
  case (Cons u us)
  from fetch_loop_turn [of env dmn u us w] show ?case
  proof
    assume eq: "fetch_loop env dmn (u # us) w = fetch_loop env dmn us (await_fetch env u w)"
    from Cons.IH [of "await_fetch env u w"] obtain rest where
      "requests (snd (fetch_loop env dmn us (await_fetch env u w))) = requests (await_fetch env u w) @ rest"
      by blast
    with eq show ?thesis by (simp add: await_fetch_def)
  next
    assume "\<exists>d w2. accepted env u = Some d \<and> cacheFavicon env dmn d (await_fetch env u w) = Inr w2
         \<and> fetch_loop env dmn (u # us) w = (Some d, w2)"
    then obtain d w2 where "cacheFavicon env dmn d (await_fetch env u w) = Inr w2"
      "fetch_loop env dmn (u # us) w = (Some d, w2)" by blast
    with cacheFavicon_Inr(1) [of env dmn d "await_fetch env u w" w2] show ?thesis
      by (simp add: await_fetch_def)
  qed
qed

lemma fetch_loop_requests_Cons:
  "\<exists>rest. requests (snd (fetch_loop env dmn (u # us) w)) = requests w @ u # rest"
proof -
  from fetch_loop_turn [of env dmn u us w] show ?thesis
  proof
    assume eq: "fetch_loop env dmn (u # us) w = fetch_loop env dmn us (await_fetch env u w)"
    from fetch_loop_requests [of env dmn us "await_fetch env u w"] obtain rest where
      "requests (snd (fetch_loop env dmn us (await_fetch env u w))) = requests (await_fetch env u w) @ rest"
      by blast
    with eq show ?thesis by (simp add: await_fetch_def)
  next
    assume "\<exists>d w2. accepted env u = Some d \<and> cacheFavicon env dmn d (await_fetch env u w) = Inr w2
         \<and> fetch_loop env dmn (u # us) w = (Some d, w2)"
    then obtain d w2 where "cacheFavicon env dmn d (await_fetch env u w) = Inr w2"
      "fetch_loop env dmn (u # us) w = (Some d, w2)" by blast
    with cacheFavicon_Inr(1) [of env dmn d "await_fetch env u w" w2] show ?thesis
      by (simp add: await_fetch_def)
  qed
qed

lemma fetch_loop_db:
  "db (snd (fetch_loop env dmn us w)) = db w \<or>
   (\<exists>store e. db w = Some store \<and> db (snd (fetch_loop env dmn us w)) = Some (store(dmn \<mapsto> e)))"
proof (induction us arbitrary: w)
  case Nil
  show ?case by simp
next
  case (Cons u us)
  have dbw: "db (await_fetch env u w) = db w" by (simp add: await_fetch_def)
  from fetch_loop_turn [of env dmn u us w] show ?case
  proof
    assume "fetch_loop env dmn (u # us) w = fetch_loop env dmn us (await_fetch env u w)"
    with Cons.IH [of "await_fetch env u w"] dbw show ?thesis by simp
  next
    assume "\<exists>d w2. accepted env u = Some d \<and> cacheFavicon env dmn d (await_fetch env u w) = Inr w2
         \<and> fetch_loop env dmn (u # us) w = (Some d, w2)"
    then obtain d w2 where c: "cacheFavicon env dmn d (await_fetch env u w) = Inr w2"
      and r: "fetch_loop env dmn (u # us) w = (Some d, w2)" by blast
    from r have "snd (fetch_loop env dmn (u # us) w) = w2" by simp
    moreover from cacheFavicon_Inr(4) [OF c] dbw
    have "db w2 = db w \<or> (\<exists>store e. db w = Some store \<and> db w2 = Some (store(dmn \<mapsto> e)))"
      by (simp only:)
    ultimately show ?thesis by (simp only:)
  qed
qed

lemma fetch_loop_result:
  "fst (fetch_loop env dmn us w) = None
   \<or> (\<exists>u\<in>set us. fst (fetch_loop env dmn us w) = accepted env u)"
proof (induction us arbitrary: w)
  case Nil
  show ?case by simp
next
  case (Cons u us)
  from fetch_loop_turn [of env dmn u us w] show ?case
  proof
    assume "fetch_loop env dmn (u # us) w = fetch_loop env dmn us (await_fetch env u w)"
    with Cons.IH [of "await_fetch env u w"] show ?thesis by auto
  next
    assume "\<exists>d w2. accepted env u = Some d \<and> cacheFavicon env dmn d (await_fetch env u w) = Inr w2
         \<and> fetch_loop env dmn (u # us) w = (Some d, w2)"
    then show ?thesis by auto
  qed
qed

lemma rejected_not_accepted:
  "fetch env u = None \<or> (\<exists>r. fetch env u = Some r \<and> (\<not> ok r \<or> (\<exists>b. blob r = Some b \<and> length b < 100)))
   \<Longrightarrow> accepted env u = None"
  by (auto simp: accepted_def)

lemma accepted_intro:
  "fetch env v = Some r \<Longrightarrow> ok r \<Longrightarrow> blob r = Some b \<Longrightarrow> 100 \<le> length b \<Longrightarrow>
   readAsDataURL env b = Some d \<Longrightarrow> accepted env v = Some d"
  by (simp add: accepted_def)

text \<open>
  What the loop does when the write completes: with the sources split at the first source
  \<open>v\<close> whose answer is accepted, and a connection that is open when that answer is to be
  written, the loop requests \<open>pre\<close> and \<open>v\<close> and nothing of \<open>post\<close>, puts one record
  stamped with the time of the write, and returns the data address.
\<close>

lemma first_accepted_wins_if_write_completes:
  fixes w :: world
  assumes split: "sources dmn = pre @ v # post"
    and skipped: "\<forall>u\<in>set pre. fetch env u = None \<or>
        (\<exists>r. fetch env u = Some r \<and> (\<not> ok r \<or> (\<exists>b. blob r = Some b \<and> length b < 100)))"
    and hit: "fetch env v = Some r" "ok r" "blob r = Some b" "100 \<le> length b"
      "readAsDataURL env b = Some d"
    and store: "db w = Some store" "\<not> closed env (clock w + elapsed env (pre @ [v]))"
      "\<not> putFails env dmn"
  shows "fetchAndCacheFavicon env dmn w =
      (Some d,
       \<lparr>clock = clock w + elapsed env (pre @ [v]),
        db = Some (store(dmn \<mapsto>
               \<lparr>domain = dmn, dataUrl = d, timestamp = clock w + elapsed env (pre @ [v])\<rparr>)),
        requests = requests w @ pre @ [v],
        puts = puts w @ [\<lparr>domain = dmn, dataUrl = d, timestamp = clock w + elapsed env (pre @ [v])\<rparr>]\<rparr>)"
proof -
  let ?w1 = "advance env (pre @ [v]) w"
  have a: "\<forall>u\<in>set pre. accepted env u = None"
    using skipped rejected_not_accepted by blast
  have b: "accepted env v = Some d"
    using hit by (rule accepted_intro)
  have "db ?w1 = Some store" "\<not> closed env (clock ?w1)"
    using store by (simp_all add: advance_def)
  then have c: "cacheFavicon env dmn d ?w1 =
      Inr (?w1\<lparr>db := Some (store(dmn \<mapsto> \<lparr>domain = dmn, dataUrl = d, timestamp = clock ?w1\<rparr>)),
            puts := puts ?w1 @ [\<lparr>domain = dmn, dataUrl = d, timestamp = clock ?w1\<rparr>]\<rparr>)"
    using store(3) by (rule cacheFavicon_written)
  have "fetchAndCacheFavicon env dmn w =
      (Some d, ?w1\<lparr>db := Some (store(dmn \<mapsto> \<lparr>domain = dmn, dataUrl = d, timestamp = clock ?w1\<rparr>)),
            puts := puts ?w1 @ [\<lparr>domain = dmn, dataUrl = d, timestamp = clock ?w1\<rparr>]\<rparr>)"
    unfolding fetchAndCacheFavicon_def split using a b c by (rule fetch_loop_first_accepted)
  then show ?thesis
    by (simp add: advance_def)
qed

text \<open>
  Claim C4. The loop tries the sources in their order, and a rejected request, an answer
  that is not a success and a payload under 100 bytes lead to the next source. The first
  accepted answer is returned at once only when the write that follows it does not throw:
  \<^verbatim>\<open>await cacheFavicon\<close> stands inside the \<^verbatim>\<open>try\<close> of the loop, and
  \<^verbatim>\<open>cacheFavicon\<close> throws on a closed connection, although its own comment says that
  a failing cache must not fail the resolution. In the browser of the examples the second
  source of \<^verbatim>\<open>example.org\<close> is accepted: with an open connection the loop requests two
  sources, stores the icon and returns it; with a connection that the browser closes while
  the first request is awaited, the accepted icon is dropped, all six sources are requested,
  nothing is stored and the result is null, also for \<^verbatim>\<open>getFavicon\<close>, whose lookup came
  before the connection was closed.
\<close>

theorem accepted_icon_lost_when_write_throws:
  "fetchAndCacheFavicon demo_browser ''example.org'' empty_world =
     (Some (''data:image/png;base64,'' @ replicate 120 CHR ''x''),
      \<lparr>clock = 1700000000080,
       db = Some [''example.org'' \<mapsto>
              \<lparr>domain = ''example.org'', dataUrl = ''data:image/png;base64,'' @ replicate 120 CHR ''x'',
               timestamp = 1700000000080\<rparr>],
       requests = [''https://icons.duckduckgo.com/ip3/example.org.ico'',
                   ''https://www.google.com/s2/favicons?domain=example.org&sz=128''],
       puts = [\<lparr>domain = ''example.org'', dataUrl = ''data:image/png;base64,'' @ replicate 120 CHR ''x'',
               timestamp = 1700000000080\<rparr>]\<rparr>)
   \<and> fetchAndCacheFavicon demo_closing_browser ''example.org'' empty_world =
     (None,
      \<lparr>clock = 1700000000240,
       db = Some Map.empty,
       requests = [''https://icons.duckduckgo.com/ip3/example.org.ico'',
                   ''https://www.google.com/s2/favicons?domain=example.org&sz=128'',
                   ''https://favicon.io/favicon/example.org'',
                   ''https://example.org/favicon.ico'',
                   ''https://example.org/apple-touch-icon.png'',
                   ''https://example.org/apple-touch-icon-precomposed.png''],
       puts = []\<rparr>)
   \<and> getFavicon demo_closing_browser ''https://example.org/page'' empty_world =
       fetchAndCacheFavicon demo_closing_browser ''example.org'' empty_world"
proof -
  have open_run: "fetchAndCacheFavicon demo_browser ''example.org'' empty_world =
     (Some (''data:image/png;base64,'' @ replicate 120 CHR ''x''),
      \<lparr>clock = 1700000000080,
       db = Some [''example.org'' \<mapsto>
              \<lparr>domain = ''example.org'', dataUrl = ''data:image/png;base64,'' @ replicate 120 CHR ''x'',
               timestamp = 1700000000080\<rparr>],
       requests = [''https://icons.duckduckgo.com/ip3/example.org.ico'',
                   ''https://www.google.com/s2/favicons?domain=example.org&sz=128''],
       puts = [\<lparr>domain = ''example.org'', dataUrl = ''data:image/png;base64,'' @ replicate 120 CHR ''x'',
               timestamp = 1700000000080\<rparr>]\<rparr>)"
    by (simp add: fetchAndCacheFavicon_def sources_def fetch_loop.simps(2) await_fetch_def
        cacheFavicon_def demo_browser_def empty_world_def Let_def)
  have closed_run: "fetchAndCacheFavicon demo_closing_browser ''example.org'' empty_world =
     (None,
      \<lparr>clock = 1700000000240,
       db = Some Map.empty,
       requests = [''https://icons.duckduckgo.com/ip3/example.org.ico'',
                   ''https://www.google.com/s2/favicons?domain=example.org&sz=128'',
                   ''https://favicon.io/favicon/example.org'',
                   ''https://example.org/favicon.ico'',
                   ''https://example.org/apple-touch-icon.png'',
                   ''https://example.org/apple-touch-icon-precomposed.png''],
       puts = []\<rparr>)"
    by (simp add: fetchAndCacheFavicon_def sources_def fetch_loop.simps(2) await_fetch_def
        cacheFavicon_def demo_closing_browser_def demo_browser_def empty_world_def Let_def)
  have lookup: "getFavicon demo_closing_browser ''https://example.org/page'' empty_world =
       fetchAndCacheFavicon demo_closing_browser ''example.org'' empty_world"
    by (simp add: getFavicon_def getFavicon_try_def getCachedFavicon_def demo_closing_browser_def
        demo_browser_def empty_world_def)
  from open_run closed_run lookup show ?thesis by (simp only: simp_thms)
qed

lemma getFavicon_miss:
  "hostname env siteUrl = Some dmn \<Longrightarrow> getCachedFavicon env dmn w = Inr None \<Longrightarrow>
   getFavicon env siteUrl w = fetchAndCacheFavicon env dmn w"
  by (simp add: getFavicon_def getFavicon_try_def)

lemma getFavicon_hit:
  "hostname env siteUrl = Some dmn \<Longrightarrow> getCachedFavicon env dmn w = Inr (Some c) \<Longrightarrow> c \<noteq> [] \<Longrightarrow>
   getFavicon env siteUrl w = (Some c, w)"
  by (simp add: getFavicon_def getFavicon_try_def)

lemma getFavicon_empty_hit:
  "hostname env siteUrl = Some dmn \<Longrightarrow> getCachedFavicon env dmn w = Inr (Some []) \<Longrightarrow>
   getFavicon env siteUrl w = fetchAndCacheFavicon env dmn w"
  by (simp add: getFavicon_def getFavicon_try_def)

lemma getFavicon_lookup_throws:
  "hostname env siteUrl = Some dmn \<Longrightarrow> getCachedFavicon env dmn w = Inl e \<Longrightarrow>
   getFavicon env siteUrl w = (None, w)"
  by (simp add: getFavicon_def getFavicon_try_def)

text \<open>
  Claim C2. Let the address parse to a domain whose entry \<open>e\<close> the store returns (the
  database is there, its connection is open at the time of the lookup and the read does not
  fail), with a data address in it (a data address is never the empty string). Then
  \<^verbatim>\<open>getFavicon\<close> returns the cached data without any request if and only if
  \<open>clock - timestamp e\<close> is less than seven days. After seven days or more the lookup is a
  miss: the fetch chain runs, starting with its first source, and the domain still has an
  entry afterwards (the old one is not deleted, at most replaced).
\<close>

theorem cached_icon_iff_fresh:
  fixes w :: world
  assumes host: "hostname env siteUrl = Some dmn"
    and entry: "db w = Some store" "store dmn = Some e" "\<not> closed env (clock w)"
      "\<not> getFails env dmn"
    and nonempty: "dataUrl e \<noteq> []"
  shows "((fst (getFavicon env siteUrl w) = Some (dataUrl e)
            \<and> requests (snd (getFavicon env siteUrl w)) = requests w)
          \<longleftrightarrow> clock w - timestamp e < CACHE_DURATION)
       \<and> (clock w - timestamp e < CACHE_DURATION \<longrightarrow>
            getFavicon env siteUrl w = (Some (dataUrl e), w))
       \<and> (CACHE_DURATION \<le> clock w - timestamp e \<longrightarrow>
            getFavicon env siteUrl w = fetchAndCacheFavicon env dmn w
            \<and> (\<exists>rest. requests (snd (getFavicon env siteUrl w))
                  = requests w @ (''https://icons.duckduckgo.com/ip3/'' @ dmn @ ''.ico'') # rest)
            \<and> (\<exists>store' e'. db (snd (getFavicon env siteUrl w)) = Some store' \<and> store' dmn = Some e'))"
proof (cases "clock w - timestamp e < CACHE_DURATION")
  case True
  then have "getCachedFavicon env dmn w = Inr (Some (dataUrl e))"
    using entry by (simp add: getCachedFavicon_def)
  then have "getFavicon env siteUrl w = (Some (dataUrl e), w)"
    using host nonempty by (simp add: getFavicon_hit)
  with True show ?thesis by simp
next
  case False
  then have "getCachedFavicon env dmn w = Inr None"
    using entry by (simp add: getCachedFavicon_def)
  then have eq: "getFavicon env siteUrl w = fetchAndCacheFavicon env dmn w"
    using host by (simp add: getFavicon_miss)
  obtain rest where req: "requests (snd (fetchAndCacheFavicon env dmn w))
      = requests w @ (''https://icons.duckduckgo.com/ip3/'' @ dmn @ ''.ico'') # rest"
    unfolding fetchAndCacheFavicon_def sources_def
    using fetch_loop_requests_Cons by blast
  have kept: "\<exists>store' e'. db (snd (fetchAndCacheFavicon env dmn w)) = Some store' \<and> store' dmn = Some e'"
    unfolding fetchAndCacheFavicon_def
    using fetch_loop_db [of env dmn "sources dmn" w] entry by auto
  from False eq req kept show ?thesis by simp
qed

text \<open>
  Claim C5. \<^verbatim>\<open>getFavicon\<close> never throws: a throw of its body becomes the result null
  with the world untouched, and its result is null or a data address (the cached one, or the
  one an accepted source encodes to). An address whose host does not parse gives null at
  once. When every source fails or is undersized, the store and the log of puts are as
  before, and the result is null unless the lookup found a cached entry.
\<close>

theorem getFavicon_degrades_to_null:
  fixes w :: world
  shows "(getFavicon_try env siteUrl w = Inl err \<longrightarrow> getFavicon env siteUrl w = (None, w))
       \<and> (hostname env siteUrl = None \<longrightarrow> getFavicon env siteUrl w = (None, w))
       \<and> (hostname env siteUrl = Some dmn
            \<and> (\<forall>u\<in>set (sources dmn). fetch env u = None \<or>
                  (\<exists>r. fetch env u = Some r \<and> (\<not> ok r \<or> (\<exists>b. blob r = Some b \<and> length b < 100))))
          \<longrightarrow> db (snd (getFavicon env siteUrl w)) = db w
              \<and> puts (snd (getFavicon env siteUrl w)) = puts w
              \<and> ((\<forall>c. getCachedFavicon env dmn w \<noteq> Inr (Some c)) \<longrightarrow>
                    fst (getFavicon env siteUrl w) = None))
       \<and> (fst (getFavicon env siteUrl w) = None
          \<or> (\<exists>h. hostname env siteUrl = Some h
                \<and> (getCachedFavicon env h w = Inr (fst (getFavicon env siteUrl w))
                    \<or> (\<exists>u\<in>set (sources h). fst (getFavicon env siteUrl w) = accepted env u))))"
proof (intro conjI impI)
  assume "getFavicon_try env siteUrl w = Inl err"
  then show "getFavicon env siteUrl w = (None, w)"
    by (simp add: getFavicon_def)
next
  assume "hostname env siteUrl = None"
  then show "getFavicon env siteUrl w = (None, w)"
    by (simp add: getFavicon_def getFavicon_try_def)
next
  assume h: "hostname env siteUrl = Some dmn
            \<and> (\<forall>u\<in>set (sources dmn). fetch env u = None \<or>
                  (\<exists>r. fetch env u = Some r \<and> (\<not> ok r \<or> (\<exists>b. blob r = Some b \<and> length b < 100))))"
  then have none: "\<forall>u\<in>set (sources dmn). accepted env u = None"
    using rejected_not_accepted by blast
  then have loop: "fetchAndCacheFavicon env dmn w = (None, advance env (sources dmn) w)"
    unfolding fetchAndCacheFavicon_def by (rule fetch_loop_all_skipped)
  have cases: "getFavicon env siteUrl w = fetchAndCacheFavicon env dmn w
      \<or> getFavicon env siteUrl w = (None, w)
      \<or> (\<exists>c. getCachedFavicon env dmn w = Inr (Some c) \<and> getFavicon env siteUrl w = (Some c, w))"
    using h by (auto simp: getFavicon_def getFavicon_try_def split: option.splits sum.splits)
  then show "db (snd (getFavicon env siteUrl w)) = db w"
    and "puts (snd (getFavicon env siteUrl w)) = puts w"
    using loop by (auto simp: db_advance puts_advance)
  assume "\<forall>c. getCachedFavicon env dmn w \<noteq> Inr (Some c)"
  with cases loop show "fst (getFavicon env siteUrl w) = None"
    by auto
next
  show "fst (getFavicon env siteUrl w) = None
          \<or> (\<exists>h. hostname env siteUrl = Some h
                \<and> (getCachedFavicon env h w = Inr (fst (getFavicon env siteUrl w))
                    \<or> (\<exists>u\<in>set (sources h). fst (getFavicon env siteUrl w) = accepted env u)))"
  proof (cases "hostname env siteUrl")
    case None
    then show ?thesis by (simp add: getFavicon_def getFavicon_try_def)
  next
    case (Some h)
    have fl: "fst (fetchAndCacheFavicon env h w) = None
        \<or> (\<exists>u\<in>set (sources h). fst (fetchAndCacheFavicon env h w) = accepted env u)"
      unfolding fetchAndCacheFavicon_def by (rule fetch_loop_result)
    show ?thesis
    proof (cases "getCachedFavicon env h w")
      case (Inl e)
      with Some show ?thesis by (simp add: getFavicon_lookup_throws)
    next
      case (Inr cached)
      show ?thesis
      proof (cases cached)
        case None
        with Inr Some have "getFavicon env siteUrl w = fetchAndCacheFavicon env h w"
          by (simp add: getFavicon_miss)
        with Some fl show ?thesis by auto
      next
        case inner: (Some c)
        show ?thesis
        proof (cases "c = []")
          case True
          with inner Inr Some
          have "getFavicon env siteUrl w = fetchAndCacheFavicon env h w"
            by (simp add: getFavicon_empty_hit)
          with Some fl show ?thesis
            by auto
        next
          case False
          with inner Inr Some show ?thesis
            by (simp add: getFavicon_hit)
        qed
      qed
    qed
  qed
qed

theorem cached_icon_iff_fresh_witness:
  "getFavicon demo_browser ''https://example.org/page'' (demo_world (6 * 24 * 60 * 60 * 1000))
     = (Some ''data:cached'', demo_world (6 * 24 * 60 * 60 * 1000))
   \<and> (\<exists>rest. requests (snd (getFavicon demo_browser ''https://example.org/page''
                  (demo_world (8 * 24 * 60 * 60 * 1000))))
        = ''https://icons.duckduckgo.com/ip3/example.org.ico'' # rest)"
proof -
  let ?e = "\<lambda>age. \<lparr>domain = ''example.org'', dataUrl = ''data:cached'', timestamp = 1700000000000 - age\<rparr>"
  have h: "hostname demo_browser ''https://example.org/page'' = Some ''example.org''"
    by (simp add: demo_browser_def)
  have g: "\<not> getFails demo_browser ''example.org''"
    by (simp add: demo_browser_def)
  have o: "\<not> closed demo_browser (clock (demo_world age))" for age
    by (simp add: demo_browser_def)
  have d: "db (demo_world age) = Some [''example.org'' \<mapsto> ?e age]" for age
    by (simp add: demo_world_def)
  have s: "[''example.org'' \<mapsto> ?e age] ''example.org'' = Some (?e age)" for age
    by simp
  have n: "dataUrl (?e age) \<noteq> []" for age
    by simp
  have fresh: "clock (demo_world (6 * 24 * 60 * 60 * 1000))
      - timestamp (?e (6 * 24 * 60 * 60 * 1000)) < CACHE_DURATION"
    by (simp add: CACHE_DURATION_def demo_world_def)
  have stale: "CACHE_DURATION \<le> clock (demo_world (8 * 24 * 60 * 60 * 1000))
      - timestamp (?e (8 * 24 * 60 * 60 * 1000))"
    by (simp add: CACHE_DURATION_def demo_world_def)
  have r: "requests (demo_world age) = []" for age
    by (simp add: demo_world_def)
  from cached_icon_iff_fresh [OF h d s o g n, of "6 * 24 * 60 * 60 * 1000"] fresh
  have "getFavicon demo_browser ''https://example.org/page'' (demo_world (6 * 24 * 60 * 60 * 1000))
     = (Some ''data:cached'', demo_world (6 * 24 * 60 * 60 * 1000))"
    by simp
  moreover
  from cached_icon_iff_fresh [OF h d s o g n, of "8 * 24 * 60 * 60 * 1000"] stale
  obtain rest where "requests (snd (getFavicon demo_browser ''https://example.org/page''
                  (demo_world (8 * 24 * 60 * 60 * 1000))))
        = requests (demo_world (8 * 24 * 60 * 60 * 1000))
          @ (''https://icons.duckduckgo.com/ip3/'' @ ''example.org'' @ ''.ico'') # rest"
    by blast
  then have "\<exists>rest. requests (snd (getFavicon demo_browser ''https://example.org/page''
                  (demo_world (8 * 24 * 60 * 60 * 1000))))
        = ''https://icons.duckduckgo.com/ip3/example.org.ico'' # rest"
    by (simp add: r)
  ultimately show ?thesis by blast
qed

theorem getFavicon_degrades_to_null_witness:
  "getFavicon demo_browser ''not a url'' empty_world = (None, empty_world)
   \<and> fst (getFavicon demo_browser ''https://dead.test'' empty_world) = None
   \<and> db (snd (getFavicon demo_browser ''https://dead.test'' empty_world)) = db empty_world
   \<and> puts (snd (getFavicon demo_browser ''https://dead.test'' empty_world)) = puts empty_world"
proof -
  have a: "hostname demo_browser ''not a url'' = None"
    by (simp add: demo_browser_def)
  have b: "hostname demo_browser ''https://dead.test'' = Some ''dead.test''"
    by (simp add: demo_browser_def)
  have c: "\<forall>u\<in>set (sources ''dead.test''). fetch demo_browser u = None \<or>
      (\<exists>r. fetch demo_browser u = Some r \<and> (\<not> ok r \<or> (\<exists>b. blob r = Some b \<and> length b < 100)))"
    by (simp add: sources_def demo_browser_def)
  have d: "\<forall>c. getCachedFavicon demo_browser ''dead.test'' empty_world \<noteq> Inr (Some c)"
    by (simp add: getCachedFavicon_def empty_world_def demo_browser_def)
  from getFavicon_degrades_to_null [of demo_browser "''not a url''" empty_world TypeError "''dead.test''"] a
  have "getFavicon demo_browser ''not a url'' empty_world = (None, empty_world)"
    by simp
  moreover
  from getFavicon_degrades_to_null [of demo_browser "''https://dead.test''" empty_world TypeError "''dead.test''"]
    b c d
  have "fst (getFavicon demo_browser ''https://dead.test'' empty_world) = None
   \<and> db (snd (getFavicon demo_browser ''https://dead.test'' empty_world)) = db empty_world
   \<and> puts (snd (getFavicon demo_browser ''https://dead.test'' empty_world)) = puts empty_world"
    by blast
  ultimately show ?thesis by simp
qed

section \<open>Properties of drag and drop\<close>

lemma splice_js_remove_one:
  "0 \<le> i \<Longrightarrow> i < int (length xs) \<Longrightarrow>
   splice_js i 1 [] xs = ([xs ! nat i], take (nat i) xs @ drop (Suc (nat i)) xs)"
proof -
  assume a: "0 \<le> i" "i < int (length xs)"
  then have "nat i < length xs" by simp
  then have "take 1 (drop (nat i) xs) = [xs ! nat i]"
    by (simp add: take_Suc_conv_app_nth Cons_nth_drop_Suc [symmetric])
  with a show ?thesis
    by (simp add: splice_js_def Let_def min_def)
qed

lemma splice_js_insert_one:
  "0 \<le> i \<Longrightarrow> i \<le> int (length xs) \<Longrightarrow>
   splice_js i 0 [x] xs = ([], take (nat i) xs @ [x] @ drop (nat i) xs)"
  by (simp add: splice_js_def Let_def min_def)

lemma documented_drop_index_cases:
  "d < n \<Longrightarrow> t < n \<Longrightarrow> d \<noteq> t \<Longrightarrow>
   documented_drop_index n d t isAbove
     = int (if isAbove then (if d < t then t - 1 else t) else (if d < t then t else t + 1))"
  by (auto simp: documented_drop_index_def)

lemma handleDrop_newIndex:
  assumes "draggedItem st = Some d" "draggedIndex st = int d" "d \<noteq> t" "d < length (sites st)"
  shows "sites (handleDrop (Some t) isAbove st) =
     (let ni = documented_drop_index (length (sites st)) d t isAbove;
          rest = take d (sites st) @ drop (Suc d) (sites st)
      in if int d = ni then sites st else take (nat ni) rest @ [sites st ! d] @ drop (nat ni) rest)"
proof -
  let ?n = "length (sites st)"
  let ?ni = "documented_drop_index ?n d t isAbove"
  let ?rest = "take d (sites st) @ drop (Suc d) (sites st)"
  have code: "max 0 (min (if int d < int t then (if isAbove then int t else int t + 1) - 1
                          else (if isAbove then int t else int t + 1)) (int ?n - 1)) = ?ni"
    by (simp add: documented_drop_index_def)
  have bounds: "0 \<le> ?ni" "?ni \<le> int (length ?rest)"
    using assms(4) by (auto simp: documented_drop_index_def)
  have rem: "splice_js (int d) 1 [] (sites st) = ([sites st ! d], ?rest)"
    using assms(4) splice_js_remove_one [of "int d" "sites st"] by simp
  have ins: "splice_js ?ni 0 [sites st ! d] ?rest
      = ([], take (nat ?ni) ?rest @ [sites st ! d] @ drop (nat ?ni) ?rest)"
    using bounds by (rule splice_js_insert_one)
  have "handleDrop (Some t) isAbove st =
      (if int d \<noteq> ?ni then st\<lparr>sites := snd (splice_js ?ni 0 [sites st ! d] ?rest)\<rparr> else st)"
    using assms rem
    by (cases isAbove; cases "d < t")
      (simp_all add: handleDrop_def Let_def documented_drop_index_def)
  then show ?thesis
    by (simp add: ins Let_def)
qed


lemma move_unchanged:
  "d < length xs \<Longrightarrow>
   take d (take d xs @ drop (Suc d) xs) @ [xs ! d] @ drop d (take d xs @ drop (Suc d) xs) = xs"
  by (simp add: Cons_nth_drop_Suc)

lemma nth_removed:
  assumes "d < length xs" "i < length xs - 1"
  shows "(take d xs @ drop (Suc d) xs) ! i = (if i < d then xs ! i else xs ! Suc i)"
proof (cases "i < d")
  case True
  with assms show ?thesis by (simp add: nth_append)
next
  case False
  then have "Suc d + (i - d) = Suc i" by simp
  with False assms show ?thesis by (simp add: nth_append min_def)
qed

lemma nth_inserted:
  assumes "k \<le> length ys" "i \<le> length ys"
  shows "(take k ys @ [x] @ drop k ys) ! i
     = (if i < k then ys ! i else if i = k then x else ys ! (i - 1))"
proof -
  have lk: "length (take k ys) = k" using assms by simp
  consider "i < k" | "i = k" | "k < i" by linarith
  then show ?thesis
  proof cases
    case 1
    with assms show ?thesis by (simp add: nth_append)
  next
    case 2
    with assms show ?thesis by (simp add: nth_append)
  next
    case 3
    then obtain j where j: "i - k = Suc j" by (cases "i - k") auto
    then have "k + j = i - 1" by simp
    with 3 j assms show ?thesis by (simp add: nth_append)
  qed
qed

text \<open>
  Claim C1. Dragging the site at index \<open>d\<close> onto another site at index \<open>t\<close>: the
  position \<open>k\<close> of the drop is the documented one (the index of the target for a drop above
  it, one more for a drop below it, one less when \<open>d < t\<close>), it lies within the list, and
  \<^verbatim>\<open>handleDrop\<close> removes the dragged site and puts it back at \<open>k\<close>. The list keeps
  its length, and the moved site ends up directly before the target for a drop above it and
  directly after it for a drop below it. For the order A, B, C, D, dragging index 0 and
  dropping below index 2 gives B, C, A, D, as the instance after the theorem shows.
\<close>

theorem handleDrop_splice_rule:
  assumes "d < length (sites st)" "t < length (sites st)" "d \<noteq> t"
  shows "let n = length (sites st);
             k = (if isAbove then (if d < t then t - 1 else t) else (if d < t then t else t + 1));
             rest = take d (sites st) @ drop (Suc d) (sites st);
             st' = handleDrop (Some t) isAbove (handleDragStart (Some d) st)
         in documented_drop_index n d t isAbove = int k \<and> k < n
            \<and> sites st' = take k rest @ [sites st ! d] @ drop k rest
            \<and> length (sites st') = n
            \<and> sites st' ! k = sites st ! d
            \<and> sites st' ! (if isAbove then k + 1 else k - 1) = sites st ! t"
proof -
  define xs where "xs = sites st"
  define k where "k = (if isAbove then (if d < t then t - 1 else t) else (if d < t then t else t + 1))"
  define rest where "rest = take d xs @ drop (Suc d) xs"
  define res where "res = take k rest @ [xs ! d] @ drop k rest"
  let ?st = "handleDragStart (Some d) st"
  have dn: "d < length xs" and tn: "t < length xs"
    using assms by (simp_all add: xs_def)
  have kd: "documented_drop_index (length xs) d t isAbove = int k"
    unfolding k_def using dn tn assms(3) by (rule documented_drop_index_cases)
  have kn: "k < length xs" using dn tn assms(3) by (auto simp: k_def)
  have lr: "length rest = length xs - 1" using dn by (auto simp: rest_def)
  have kl: "k \<le> length rest" using kn lr by simp
  have start: "draggedItem ?st = Some d" "draggedIndex ?st = int d" "sites ?st = xs"
    by (simp_all add: handleDragStart_def xs_def)
  have "sites (handleDrop (Some t) isAbove ?st) = (if int d = int k then xs else res)"
    using handleDrop_newIndex [OF start(1,2) assms(3), of isAbove] dn kd
    by (simp only: start Let_def nat_int res_def rest_def)
  moreover have "k = d \<Longrightarrow> res = xs"
    using dn by (simp only: res_def rest_def move_unchanged)
  ultimately have res: "sites (handleDrop (Some t) isAbove ?st) = res"
    by (cases "k = d") simp_all
  have len: "length res = length xs"
    using kn lr kl by (simp add: res_def)
  have at_k: "res ! k = xs ! d"
    unfolding res_def using nth_inserted [OF kl kl, of "xs ! d"] by simp
  have adj: "res ! (if isAbove then k + 1 else k - 1) = xs ! t"
  proof (cases isAbove)
    case True
    have "k + 1 \<le> length rest" using True kn lr dn tn assms(3) by (auto simp: k_def)
    then have "res ! (k + 1) = rest ! k"
      unfolding res_def using nth_inserted [OF kl, of "k + 1" "xs ! d"] by simp
    also have "\<dots> = xs ! t"
      unfolding rest_def using True dn tn assms(3) nth_removed [OF dn, of k]
      by (auto simp: k_def)
    finally show ?thesis using True by simp
  next
    case False
    then have k1: "0 < k" using assms(3) by (auto simp: k_def)
    then have "res ! (k - 1) = rest ! (k - 1)"
      unfolding res_def using kl nth_inserted [OF kl, of "k - 1" "xs ! d"] by simp
    also have "\<dots> = xs ! t"
      unfolding rest_def using False dn tn assms(3) nth_removed [OF dn, of "k - 1"]
      by (auto simp: k_def)
    finally show ?thesis using False by simp
  qed
  show ?thesis
    unfolding Let_def
    using kd kn res len at_k adj
    by (simp only: xs_def [symmetric] k_def [symmetric] rest_def [symmetric] res_def [symmetric] simp_thms)
qed


theorem handleDrop_splice_rule_witness:
  "sites (handleDrop (Some 2) False (handleDragStart (Some 0)
      (initial_app 0 [site_named ''A'', site_named ''B'', site_named ''C'', site_named ''D''])))
   = [site_named ''B'', site_named ''C'', site_named ''A'', site_named ''D'']"
  using handleDrop_splice_rule
    [of 0 "initial_app 0 [site_named ''A'', site_named ''B'', site_named ''C'', site_named ''D'']" 2 False]
  by (simp add: initial_app_def Let_def)

section \<open>Properties of import and export\<close>

lemma valid_candidate_iff:
  "valid_candidate c \<longleftrightarrow>
     (\<exists>n u. get_prop c ''name'' = Some (JStr n) \<and> get_prop c ''url'' = Some (JStr u))"
proof
  assume "valid_candidate c"
  then have "typeof_string (get_prop c ''name'')" "typeof_string (get_prop c ''url'')"
    by (simp_all add: valid_candidate_def)
  then show "\<exists>n u. get_prop c ''name'' = Some (JStr n) \<and> get_prop c ''url'' = Some (JStr u)"
    by (auto elim!: typeof_string.elims)
next
  assume "\<exists>n u. get_prop c ''name'' = Some (JStr n) \<and> get_prop c ''url'' = Some (JStr u)"
  then obtain n u where *: "get_prop c ''name'' = Some (JStr n)" "get_prop c ''url'' = Some (JStr u)"
    by blast
  then have "truthy c" by (cases c) simp_all
  with * show "valid_candidate c" by (simp add: valid_candidate_def)
qed

lemma to_sites_name_url:
  "map (\<lambda>s. (name s, url s)) (to_sites now rnd k cs)
     = map (\<lambda>c. (string_of (get_prop c ''name''), string_of (get_prop c ''url''))) cs"
  by (induction cs arbitrary: k) (simp_all add: Let_def)

lemma length_to_sites: "length (to_sites now rnd k cs) = length cs"
  by (induction cs arbitrary: k) (simp_all add: Let_def)

lemma validSites_drops_invalid:
  "\<not> valid_candidate c \<Longrightarrow> validSites now rnd (xs @ c # ys) = validSites now rnd (xs @ ys)"
  by (simp add: validSites_def)

text \<open>
  Claim C3. A candidate is valid exactly when it has a string \<^verbatim>\<open>name\<close> and a string
  \<^verbatim>\<open>url\<close>; a candidate that is not valid is dropped without a trace, and the valid ones
  give the sites, in their order, with their names and addresses. When the valid set is not
  empty, replacing makes it the registry, and merging keeps the registry as it is and
  appends, in their imported order, the valid entries whose address (the exact string) is
  not in the registry before the import; the others are dropped. When the valid set is
  empty nothing at all changes.
\<close>

theorem import_by_mode:
  "(valid_candidate c \<longleftrightarrow>
      (\<exists>n u. get_prop c ''name'' = Some (JStr n) \<and> get_prop c ''url'' = Some (JStr u)))
   \<and> (\<not> valid_candidate c \<longrightarrow> validSites now rnd (xs @ c # ys) = validSites now rnd (xs @ ys))
   \<and> map (\<lambda>s. (name s, url s)) (validSites now rnd cs)
       = map (\<lambda>c. (string_of (get_prop c ''name''), string_of (get_prop c ''url'')))
           (filter valid_candidate cs)
   \<and> (validSites now rnd cs \<noteq> [] \<longrightarrow>
        handleFileImport now rnd (Some (Some (JArr cs))) True st
          = (Imported, st\<lparr>sites := validSites now rnd cs\<rparr>))
   \<and> (validSites now rnd cs \<noteq> [] \<longrightarrow>
        handleFileImport now rnd (Some (Some (JArr cs))) False st
          = (Imported, st\<lparr>sites := sites st @
               filter (\<lambda>s. url s \<notin> url ` set (sites st)) (validSites now rnd cs)\<rparr>))
   \<and> (validSites now rnd cs = [] \<longrightarrow>
        handleFileImport now rnd (Some (Some (JArr cs))) replace st = (NothingValid, st))"
proof (intro conjI impI)
  show "valid_candidate c \<longleftrightarrow>
      (\<exists>n u. get_prop c ''name'' = Some (JStr n) \<and> get_prop c ''url'' = Some (JStr u))"
    by (rule valid_candidate_iff)
next
  assume "\<not> valid_candidate c"
  then show "validSites now rnd (xs @ c # ys) = validSites now rnd (xs @ ys)"
    by (rule validSites_drops_invalid)
next
  show "map (\<lambda>s. (name s, url s)) (validSites now rnd cs)
       = map (\<lambda>c. (string_of (get_prop c ''name''), string_of (get_prop c ''url'')))
           (filter valid_candidate cs)"
    by (simp only: validSites_def to_sites_name_url)
next
  assume "validSites now rnd cs \<noteq> []"
  then show "handleFileImport now rnd (Some (Some (JArr cs))) True st
          = (Imported, st\<lparr>sites := validSites now rnd cs\<rparr>)"
    by (simp add: handleFileImport_def Let_def)
next
  assume "validSites now rnd cs \<noteq> []"
  then show "handleFileImport now rnd (Some (Some (JArr cs))) False st
          = (Imported, st\<lparr>sites := sites st @
               filter (\<lambda>s. url s \<notin> url ` set (sites st)) (validSites now rnd cs)\<rparr>)"
    by (simp add: handleFileImport_def Let_def)
next
  assume "validSites now rnd cs = []"
  then show "handleFileImport now rnd (Some (Some (JArr cs))) replace st = (NothingValid, st)"
    by (simp add: handleFileImport_def Let_def)
qed

lemma merge_sites:
  "sites (snd (handleFileImport now rnd (Some (Some (JArr cs))) False st))
     = sites st @ filter (\<lambda>s. url s \<notin> url ` set (sites st)) (validSites now rnd cs)"
  by (cases "validSites now rnd cs = []") (simp_all add: handleFileImport_def Let_def)

lemma distinct_map_filter_le:
  "distinct (map f xs) \<Longrightarrow> length (filter (\<lambda>x. f x = u) xs) \<le> 1"
proof (induction xs)
  case Nil
  show ?case by simp
next
  case (Cons x xs)
  show ?case
  proof (cases "f x = u")
    case True
    with Cons.prems have "u \<notin> f ` set xs" by auto
    then have "filter (\<lambda>x. f x = u) xs = []"
      by (auto simp: filter_empty_conv)
    with True show ?thesis by simp
  next
    case False
    with Cons show ?thesis by simp
  qed
qed

text \<open>
  Claim C10. Merging compares with the registry as it was before the import only: for an
  address \<open>u\<close> that the registry does not have, every valid imported entry with that
  address is appended, so two of them make the addresses of the registry no longer
  distinct.
\<close>

theorem merge_appends_every_new_url:
  assumes "u \<notin> url ` set (sites st)"
  shows "filter (\<lambda>s. url s = u)
           (sites (snd (handleFileImport now rnd (Some (Some (JArr cs))) False st)))
         = filter (\<lambda>s. url s = u) (validSites now rnd cs)
       \<and> (2 \<le> length (filter (\<lambda>s. url s = u) (validSites now rnd cs)) \<longrightarrow>
            \<not> distinct (map url
                (sites (snd (handleFileImport now rnd (Some (Some (JArr cs))) False st)))))"
proof -
  let ?new = "sites (snd (handleFileImport now rnd (Some (Some (JArr cs))) False st))"
  have old: "filter (\<lambda>s. url s = u) (sites st) = []"
    using assms by (auto simp: filter_empty_conv)
  have "filter (\<lambda>s. url s = u) (filter (\<lambda>s. url s \<notin> url ` set (sites st)) (validSites now rnd cs))
      = filter (\<lambda>s. url s = u) (validSites now rnd cs)"
    using assms by (auto intro: filter_cong)
  with old have eq: "filter (\<lambda>s. url s = u) ?new = filter (\<lambda>s. url s = u) (validSites now rnd cs)"
    by (simp add: merge_sites)
  have "\<not> distinct (map url ?new)"
    if "2 \<le> length (filter (\<lambda>s. url s = u) (validSites now rnd cs))"
  proof
    assume "distinct (map url ?new)"
    then have "length (filter (\<lambda>s. url s = u) ?new) \<le> 1"
      by (rule distinct_map_filter_le)
    with eq that show False by simp
  qed
  with eq show ?thesis by blast
qed






lemma validSites_demo_import:
  "validSites now rnd demo_import =
     [\<lparr>id' = JStr (generateId now (rnd 0)), name = ''X'', url = ''https://x.test'', color = JStr ''#4a9eff''\<rparr>,
      \<lparr>id' = JStr ''hub'', name = ''Hub'', url = ''https://github.com'', color = JStr ''#000000''\<rparr>]"
  by (simp add: validSites_def demo_import_def valid_candidate_def or_default_def Let_def)

theorem import_by_mode_witness:
  "sites (snd (handleFileImport 0 (\<lambda>k. ''r'') (Some (Some (JArr demo_import))) True
       (initial_app 0 DEFAULT_SITES)))
     = [\<lparr>id' = JStr (generateId 0 ''r''), name = ''X'', url = ''https://x.test'', color = JStr ''#4a9eff''\<rparr>,
        \<lparr>id' = JStr ''hub'', name = ''Hub'', url = ''https://github.com'', color = JStr ''#000000''\<rparr>]
   \<and> sites (snd (handleFileImport 0 (\<lambda>k. ''r'') (Some (Some (JArr demo_import))) False
       (initial_app 0 DEFAULT_SITES)))
     = DEFAULT_SITES @
       [\<lparr>id' = JStr (generateId 0 ''r''), name = ''X'', url = ''https://x.test'', color = JStr ''#4a9eff''\<rparr>]
   \<and> handleFileImport 0 (\<lambda>k. ''r'') (Some (Some (JArr [JNum 5, JObj [(''name'', JStr ''Y'')]]))) True
       (initial_app 0 DEFAULT_SITES) = (NothingValid, initial_app 0 DEFAULT_SITES)"
proof -
  let ?st = "initial_app 0 DEFAULT_SITES"
  have ne: "validSites 0 (\<lambda>k. ''r'') demo_import \<noteq> []"
    by (simp add: validSites_demo_import)
  have em: "validSites 0 (\<lambda>k. ''r'') [JNum 5, JObj [(''name'', JStr ''Y'')]] = []"
    by (simp add: validSites_def valid_candidate_def)
  from import_by_mode [of JNull 0 "\<lambda>k. ''r''" "[]" "[]" demo_import ?st True] ne
  have a: "handleFileImport 0 (\<lambda>k. ''r'') (Some (Some (JArr demo_import))) True ?st
      = (Imported, ?st\<lparr>sites := validSites 0 (\<lambda>k. ''r'') demo_import\<rparr>)"
    and b: "handleFileImport 0 (\<lambda>k. ''r'') (Some (Some (JArr demo_import))) False ?st
      = (Imported, ?st\<lparr>sites := sites ?st @
           filter (\<lambda>s. url s \<notin> url ` set (sites ?st)) (validSites 0 (\<lambda>k. ''r'') demo_import)\<rparr>)"
    by blast+
  from import_by_mode [of JNull 0 "\<lambda>k. ''r''" "[]" "[]" "[JNum 5, JObj [(''name'', JStr ''Y'')]]" ?st True] em
  have c: "handleFileImport 0 (\<lambda>k. ''r'') (Some (Some (JArr [JNum 5, JObj [(''name'', JStr ''Y'')]]))) True ?st
      = (NothingValid, ?st)"
    by blast
  have d: "sites ?st = DEFAULT_SITES" by (simp add: initial_app_def)
  show ?thesis
    unfolding a b c
    by (simp add: validSites_demo_import d) (simp add: DEFAULT_SITES_def)
qed

theorem merge_appends_every_new_url_witness:
  "distinct (map url (sites (initial_app 0 DEFAULT_SITES)))
   \<and> \<not> distinct (map url (sites (snd (handleFileImport 0 (\<lambda>k. ''r'') (Some (Some (JArr demo_twins))) False
         (initial_app 0 DEFAULT_SITES)))))"
proof -
  let ?st = "initial_app 0 DEFAULT_SITES"
  have v: "validSites 0 (\<lambda>k. ''r'') demo_twins =
     [\<lparr>id' = JStr ''n1'', name = ''First'', url = ''https://new.test'', color = JStr ''#4a9eff''\<rparr>,
      \<lparr>id' = JStr ''n2'', name = ''Second'', url = ''https://new.test'', color = JStr ''#4a9eff''\<rparr>]"
    by (simp add: validSites_def demo_twins_def valid_candidate_def or_default_def Let_def)
  have new: "''https://new.test'' \<notin> url ` set (sites ?st)"
    by (simp add: initial_app_def DEFAULT_SITES_def)
  have two: "2 \<le> length (filter (\<lambda>s. url s = ''https://new.test'') (validSites 0 (\<lambda>k. ''r'') demo_twins))"
    by (simp add: v)
  have "distinct (map url (sites ?st))"
    by (simp add: initial_app_def DEFAULT_SITES_def)
  with merge_appends_every_new_url [OF new, of 0 "\<lambda>k. ''r''" demo_twins] two
  show ?thesis by blast
qed


section \<open>The invariant of the registry\<close>

lemma registry_ok_mset:
  assumes "mset xs = mset ys"
  shows "registry_ok xs = registry_ok ys"
proof -
  from assms have "mset (map id' xs) = mset (map id' ys)" by simp
  then have "distinct (map id' xs) = distinct (map id' ys)"
    by (rule mset_eq_imp_distinct_iff)
  moreover from assms have "set xs = set ys" by (rule mset_eq_setD)
  ultimately show ?thesis by (simp add: registry_ok_def list_all_iff)
qed

lemma mset_remove_nth:
  "d < length xs \<Longrightarrow> add_mset (xs ! d) (mset (take d xs @ drop (Suc d) xs)) = mset xs"
proof -
  assume "d < length xs"
  then have "xs = take d xs @ xs ! d # drop (Suc d) xs" by (rule id_take_nth_drop)
  then have "mset xs = mset (take d xs @ xs ! d # drop (Suc d) xs)" by simp
  then show ?thesis by simp
qed

lemma mset_insert_at: "mset (take k ys @ [x] @ drop k ys) = add_mset x (mset ys)"
proof -
  have "mset (take k ys) + mset (drop k ys) = mset (take k ys @ drop k ys)"
    by (simp only: mset_append)
  then have "mset (take k ys) + mset (drop k ys) = mset ys"
    by (simp only: append_take_drop_id)
  then show ?thesis by simp
qed

lemma handleDrop_mset: "mset (sites (handleDrop target isAbove st)) = mset (sites st)"
proof (cases "handleDrop target isAbove st = st")
  case True
  then show ?thesis by simp
next
  case False
  define xs where "xs = sites st"
  define di where "di = draggedIndex st"
  obtain t where t: "target = Some t" using False by (cases target) (simp_all add: handleDrop_def)
  define ni where "ni = max 0 (min (if di < int t then (if isAbove then int t else int t + 1) - 1
      else (if isAbove then int t else int t + 1)) (int (length xs) - 1))"
  have guard: "0 \<le> di" "di < int (length xs)"
    using False t by (auto simp: handleDrop_def Let_def di_def xs_def split: if_splits)
  define rest where "rest = take (nat di) xs @ drop (Suc (nat di)) xs"
  have rem: "splice_js di 1 [] xs = ([xs ! nat di], rest)"
    unfolding rest_def using guard by (rule splice_js_remove_one)
  have "0 \<le> ni" "ni \<le> int (length rest)"
    using guard by (auto simp: ni_def rest_def)
  then have ins: "splice_js ni 0 [xs ! nat di] rest = ([], take (nat ni) rest @ [xs ! nat di] @ drop (nat ni) rest)"
    by (rule splice_js_insert_one)
  have "sites (handleDrop target isAbove st) = take (nat ni) rest @ [xs ! nat di] @ drop (nat ni) rest"
    using False t rem ins
    by (auto simp: handleDrop_def Let_def di_def [symmetric] xs_def [symmetric] ni_def [symmetric]
        split: if_splits)
  then have "mset (sites (handleDrop target isAbove st)) = add_mset (xs ! nat di) (mset rest)"
    by (simp only: mset_insert_at)
  also have "\<dots> = mset xs"
    unfolding rest_def using guard by (intro mset_remove_nth) simp
  finally show ?thesis by (simp add: xs_def)
qed

lemma registry_ok_filter: "registry_ok xs \<Longrightarrow> registry_ok (filter P xs)"
  by (auto simp: registry_ok_def list_all_iff distinct_map_filter)

lemma sites_deleteSite: "sites (deleteSite s st) = filter (\<lambda>x. id' x \<noteq> id' s) (sites st)"
  by (simp add: deleteSite_def Let_def split: option.splits)

lemma findIndex_Some: "findIndex P xs = Some k \<Longrightarrow> k < length xs \<and> P (xs ! k)"
proof (induction xs arbitrary: k)
  case Nil
  then show ?case by simp
next
  case (Cons x xs)
  then show ?case by (auto split: if_splits)
qed

lemma registry_ok_update:
  assumes "registry_ok xs" "k < length xs" "nm \<noteq> []" "u \<noteq> []" "has_scheme u"
  shows "registry_ok (xs[k := (xs ! k)\<lparr>name := nm, url := u, color := c\<rparr>])"
proof -
  let ?y = "(xs ! k)\<lparr>name := nm, url := u, color := c\<rparr>"
  have "map id' (xs[k := ?y]) = (map id' xs)[k := id' (xs ! k)]"
    by (simp add: map_update)
  also have "\<dots> = map id' xs"
    using assms(2) by (simp add: list_update_same_conv)
  finally have ids: "map id' (xs[k := ?y]) = map id' xs" .
  have "site_ok ?y" using assms by (simp add: site_ok_def)
  moreover have "set (xs[k := ?y]) \<subseteq> insert ?y (set xs)" by (rule set_update_subset_insert)
  ultimately have "list_all site_ok (xs[k := ?y])"
    using assms(1) by (auto simp: registry_ok_def list_all_iff)
  with ids assms(1) show ?thesis by (simp add: registry_ok_def)
qed

lemma registry_ok_snoc:
  assumes "registry_ok xs" "id' s \<notin> id' ` set xs" "site_ok s"
  shows "registry_ok (xs @ [s])"
  using assms by (auto simp: registry_ok_def)

lemma has_scheme_https: "has_scheme (''https://'' @ u)"
  by (simp add: has_scheme_def startsWith_def)

lemma saveSite_rejects:
  "trim siteName = [] \<or> trim siteUrl = [] \<Longrightarrow> saveSite now r siteName siteUrl st = st"
  by (auto simp: saveSite_def Let_def)

lemma sites_saveSite_add:
  assumes "trim siteName \<noteq> []" "trim siteUrl \<noteq> []" "\<not> editing st"
  shows "sites (saveSite now r siteName siteUrl st) = sites st @
     [\<lparr>id' = JStr (generateId now r), name = trim siteName,
       url = (if has_scheme (trim siteUrl) then trim siteUrl else ''https://'' @ trim siteUrl),
       color = JStr (selectedColor st)\<rparr>]"
  using assms by (simp add: saveSite_def Let_def editing_def has_scheme_def)

lemma sites_saveSite_edit:
  assumes "trim siteName \<noteq> []" "trim siteUrl \<noteq> []" "editing st"
    and "findIndex (\<lambda>s. Some (id' s) = editingSiteId st) (sites st) = Some k"
  shows "sites (saveSite now r siteName siteUrl st) = (sites st)[k := (sites st ! k)
     \<lparr>name := trim siteName,
       url := (if has_scheme (trim siteUrl) then trim siteUrl else ''https://'' @ trim siteUrl),
       color := JStr (selectedColor st)\<rparr>]"
  using assms by (simp add: saveSite_def Let_def editing_def has_scheme_def)

lemma registry_ok_saveSite:
  assumes ok: "registry_ok (sites st)"
    and fresh: "editing st \<or> JStr (generateId now r) \<notin> id' ` set (sites st)"
  shows "registry_ok (sites (saveSite now r siteName siteUrl st))"
proof (cases "trim siteName = [] \<or> trim siteUrl = []")
  case True
  then show ?thesis using ok by (simp add: saveSite_rejects)
next
  case False
  define u where "u = (if has_scheme (trim siteUrl) then trim siteUrl else ''https://'' @ trim siteUrl)"
  have u: "u \<noteq> []" "has_scheme u"
    using False has_scheme_https [of "trim siteUrl"] by (auto simp: u_def)
  show ?thesis
  proof (cases "editing st")
    case False
    with fresh have "JStr (generateId now r) \<notin> id' ` set (sites st)" by simp
    moreover have "site_ok \<lparr>id' = JStr (generateId now r), name = trim siteName, url = u,
        color = JStr (selectedColor st)\<rparr>"
      using u \<open>\<not> (trim siteName = [] \<or> trim siteUrl = [])\<close> by (simp add: site_ok_def)
    ultimately show ?thesis
      using ok \<open>\<not> (trim siteName = [] \<or> trim siteUrl = [])\<close> False
      by (simp add: sites_saveSite_add u_def [symmetric] registry_ok_snoc)
  next
    case True
    show ?thesis
    proof (cases "findIndex (\<lambda>s. Some (id' s) = editingSiteId st) (sites st)")
      case None
      with True \<open>\<not> (trim siteName = [] \<or> trim siteUrl = [])\<close> ok show ?thesis
        by (simp add: saveSite_def Let_def editing_def)
    next
      case (Some k)
      then have "k < length (sites st)" by (simp add: findIndex_Some)
      then have "registry_ok ((sites st)[k := (sites st ! k)
          \<lparr>name := trim siteName, url := u, color := JStr (selectedColor st)\<rparr>])"
        using ok u \<open>\<not> (trim siteName = [] \<or> trim siteUrl = [])\<close>
        by (intro registry_ok_update) simp_all
      moreover have "sites (saveSite now r siteName siteUrl st) = (sites st)[k := (sites st ! k)
          \<lparr>name := trim siteName, url := u, color := JStr (selectedColor st)\<rparr>]"
        unfolding u_def
        using \<open>\<not> (trim siteName = [] \<or> trim siteUrl = [])\<close> True Some
        by (intro sites_saveSite_edit) simp_all
      ultimately show ?thesis by simp
    qed
  qed
qed

lemma registry_ok_import:
  assumes ok: "registry_ok (sites st)"
    and valid: "registry_ok (validSites now rnd cs)"
    and apart: "\<not> replace \<longrightarrow> id' ` set (validSites now rnd cs) \<inter> id' ` set (sites st) = {}"
  shows "registry_ok (sites (snd (handleFileImport now rnd (Some (Some (JArr cs))) replace st)))"
proof (cases "validSites now rnd cs = []")
  case True
  with ok show ?thesis by (simp add: handleFileImport_def Let_def)
next
  case False
  show ?thesis
  proof (cases replace)
    case True
    with False valid show ?thesis by (simp add: handleFileImport_def Let_def)
  next
    case no: False
    let ?new = "filter (\<lambda>s. url s \<notin> url ` set (sites st)) (validSites now rnd cs)"
    have "registry_ok ?new" using valid by (rule registry_ok_filter)
    moreover have "id' ` set ?new \<inter> id' ` set (sites st) = {}"
      using apart no by auto
    ultimately have "registry_ok (sites st @ ?new)"
      using ok by (auto simp: registry_ok_def)
    with False no show ?thesis by (simp add: handleFileImport_def Let_def)
  qed
qed

lemma registry_ok_append:
  "registry_ok (xs @ ys) \<longleftrightarrow>
     registry_ok xs \<and> registry_ok ys \<and> id' ` set xs \<inter> id' ` set ys = {}"
  by (auto simp: registry_ok_def)

lemma registry_ok_DEFAULT_SITES: "registry_ok DEFAULT_SITES"
  by (simp add: registry_ok_def DEFAULT_SITES_def site_ok_def has_scheme_def startsWith_def)

lemma sites_import_replace:
  "sites (snd (handleFileImport now rnd (Some (Some (JArr cs))) True st))
     = (if validSites now rnd cs = [] then sites st else validSites now rnd cs)"
  by (simp add: handleFileImport_def Let_def)

lemma site_ok_added:
  assumes "trim siteName \<noteq> []" "trim siteUrl \<noteq> []"
  shows "site_ok \<lparr>id' = i, name = trim siteName,
     url = (if has_scheme (trim siteUrl) then trim siteUrl else ''https://'' @ trim siteUrl),
     color = c\<rparr>"
  using assms has_scheme_https [of "trim siteUrl"] by (simp add: site_ok_def)

text \<open>
  Claim C7 as stated fails for the import and for the ids of added sites. The import only
  checks that \<^verbatim>\<open>name\<close> and \<^verbatim>\<open>url\<close> are strings and takes the ids of the file as they
  are: from the default registry, replacing by a file whose only entry has the empty name
  and the address \<^verbatim>\<open>example.com\<close> gives a site without a name and without a scheme,
  and merging a file whose entry has the id \<^verbatim>\<open>github\<close> gives two sites with this id.
  \<^verbatim>\<open>saveSite\<close> does not compare the id it generates with the ids of the registry: added
  at time 1700000000000 with the random suffix \<^verbatim>\<open>k3x9q2m1z\<close>, a site gets the id that
  the only site of the registry already has.
\<close>

theorem import_breaks_registry_invariant:
  "registry_ok (sites (initial_app 0 DEFAULT_SITES))
   \<and> \<not> registry_ok (sites (snd (handleFileImport 0 demo_random (Some (Some (JArr demo_bad_import))) True
         (initial_app 0 DEFAULT_SITES))))
   \<and> \<not> registry_ok (sites (snd (handleFileImport 0 demo_random (Some (Some (JArr demo_same_id))) False
         (initial_app 0 DEFAULT_SITES))))
   \<and> registry_ok (sites demo_taken)
   \<and> \<not> registry_ok (sites (saveSite 1700000000000 ''k3x9q2m1z'' ''New'' ''new.test'' demo_taken))"
proof -
  have a: "registry_ok (sites (initial_app 0 DEFAULT_SITES))"
    by (simp add: initial_app_def registry_ok_DEFAULT_SITES)
  have "validSites 0 demo_random demo_bad_import =
      [\<lparr>id' = JStr (generateId 0 ''r''), name = [], url = ''example.com'', color = JStr ''#4a9eff''\<rparr>]"
    by (simp add: validSites_def demo_bad_import_def valid_candidate_def or_default_def Let_def
        demo_random_def)
  then have b: "\<not> registry_ok (sites (snd (handleFileImport 0 demo_random
      (Some (Some (JArr demo_bad_import))) True (initial_app 0 DEFAULT_SITES))))"
    by (simp add: handleFileImport_def Let_def registry_ok_def site_ok_def)
  have "validSites 0 demo_random demo_same_id =
      [\<lparr>id' = JStr ''github'', name = ''Hub'', url = ''https://hub.test'', color = JStr ''#4a9eff''\<rparr>]"
    by (simp add: validSites_def demo_same_id_def valid_candidate_def or_default_def Let_def)
  then have c: "\<not> registry_ok (sites (snd (handleFileImport 0 demo_random
      (Some (Some (JArr demo_same_id))) False (initial_app 0 DEFAULT_SITES))))"
    by (simp add: handleFileImport_def Let_def registry_ok_def initial_app_def DEFAULT_SITES_def)
  have d: "registry_ok (sites demo_taken)"
    by (simp add: demo_taken_def initial_app_def registry_ok_def site_ok_def has_scheme_def
        startsWith_def)
  have g: "generateId 1700000000000 ''k3x9q2m1z'' = ''site_1700000000000_k3x9q2m1z''"
    by (simp add: generateId_def)
  have t: "trim ''New'' = ''New''" "trim ''new.test'' = ''new.test''"
    by (simp_all add: trim_def white_space_def)
  have "\<not> editing demo_taken"
    by (simp add: editing_def demo_taken_def initial_app_def)
  then have "sites (saveSite 1700000000000 ''k3x9q2m1z'' ''New'' ''new.test'' demo_taken) =
      sites demo_taken @
        [\<lparr>id' = JStr ''site_1700000000000_k3x9q2m1z'', name = ''New'',
          url = (if has_scheme ''new.test'' then ''new.test'' else ''https://'' @ ''new.test''),
          color = JStr (selectedColor demo_taken)\<rparr>]"
    using sites_saveSite_add [of "''New''" "''new.test''" demo_taken 1700000000000 "''k3x9q2m1z''"]
    by (simp add: t g)
  then have e: "\<not> registry_ok (sites (saveSite 1700000000000 ''k3x9q2m1z'' ''New'' ''new.test'' demo_taken))"
    by (simp add: registry_ok_def demo_taken_def initial_app_def)
  from a b c d e show ?thesis by (simp only: simp_thms)
qed

text \<open>
  Claim C7, amended. In a registry that satisfies the invariant, deleting, reordering and
  editing keep it, and an input whose trimmed name or address is empty changes nothing. An
  added site has the trimmed name and the trimmed address, with \<^verbatim>\<open>https://\<close> put in
  front when the address has neither scheme, so every site has a name and an address with
  a scheme; the ids stay distinct exactly when the generated id is not yet in the registry.
  After an import with replacement the invariant holds exactly when it holds for the sites
  built from the file; after a merge it holds exactly when it holds for the appended sites
  and none of their ids is in the registry.
\<close>

theorem registry_invariant_preserved:
  assumes "registry_ok (sites st)"
  shows "registry_ok (sites (deleteSite s st))
       \<and> registry_ok (sites (handleDrop target isAbove st))
       \<and> (editing st \<longrightarrow> registry_ok (sites (saveSite now r siteName siteUrl st)))
       \<and> (trim siteName = [] \<or> trim siteUrl = [] \<longrightarrow> saveSite now r siteName siteUrl st = st)
       \<and> (\<not> editing st \<and> trim siteName \<noteq> [] \<and> trim siteUrl \<noteq> [] \<longrightarrow>
            sites (saveSite now r siteName siteUrl st) = sites st @
              [\<lparr>id' = JStr (generateId now r), name = trim siteName,
                url = (if has_scheme (trim siteUrl) then trim siteUrl else ''https://'' @ trim siteUrl),
                color = JStr (selectedColor st)\<rparr>]
            \<and> list_all site_ok (sites (saveSite now r siteName siteUrl st))
            \<and> (registry_ok (sites (saveSite now r siteName siteUrl st))
                 \<longleftrightarrow> JStr (generateId now r) \<notin> id' ` set (sites st)))
       \<and> (registry_ok (sites (snd (handleFileImport now rnd (Some (Some (JArr cs))) True st)))
            \<longleftrightarrow> registry_ok (validSites now rnd cs))
       \<and> (registry_ok (sites (snd (handleFileImport now rnd (Some (Some (JArr cs))) False st)))
            \<longleftrightarrow> registry_ok (filter (\<lambda>x. url x \<notin> url ` set (sites st)) (validSites now rnd cs))
                 \<and> id' ` set (filter (\<lambda>x. url x \<notin> url ` set (sites st)) (validSites now rnd cs))
                     \<inter> id' ` set (sites st) = {})"
proof (intro conjI impI)
  show "registry_ok (sites (deleteSite s st))"
    using assms by (simp add: sites_deleteSite registry_ok_filter)
next
  show "registry_ok (sites (handleDrop target isAbove st))"
    using assms registry_ok_mset [OF handleDrop_mset] by blast
next
  assume "editing st"
  with assms show "registry_ok (sites (saveSite now r siteName siteUrl st))"
    by (simp add: registry_ok_saveSite)
next
  assume "trim siteName = [] \<or> trim siteUrl = []"
  then show "saveSite now r siteName siteUrl st = st"
    by (rule saveSite_rejects)
next
  assume a: "\<not> editing st \<and> trim siteName \<noteq> [] \<and> trim siteUrl \<noteq> []"
  define new where "new = \<lparr>id' = JStr (generateId now r), name = trim siteName,
      url = (if has_scheme (trim siteUrl) then trim siteUrl else ''https://'' @ trim siteUrl),
      color = JStr (selectedColor st)\<rparr>"
  have eq: "sites (saveSite now r siteName siteUrl st) = sites st @ [new]"
    unfolding new_def using a by (simp add: sites_saveSite_add)
  have ok: "site_ok new"
    unfolding new_def using a by (simp add: site_ok_added)
  then have single: "registry_ok [new]"
    by (simp add: registry_ok_def)
  have idn: "id' new = JStr (generateId now r)"
    by (simp add: new_def)
  show "sites (saveSite now r siteName siteUrl st) = sites st @
              [\<lparr>id' = JStr (generateId now r), name = trim siteName,
                url = (if has_scheme (trim siteUrl) then trim siteUrl else ''https://'' @ trim siteUrl),
                color = JStr (selectedColor st)\<rparr>]"
    using eq by (simp only: new_def)
  show "list_all site_ok (sites (saveSite now r siteName siteUrl st))"
    using assms ok by (simp add: eq registry_ok_def)
  show "registry_ok (sites (saveSite now r siteName siteUrl st))
      \<longleftrightarrow> JStr (generateId now r) \<notin> id' ` set (sites st)"
    using assms single idn by (auto simp: eq registry_ok_append)
next
  show "registry_ok (sites (snd (handleFileImport now rnd (Some (Some (JArr cs))) True st)))
            \<longleftrightarrow> registry_ok (validSites now rnd cs)"
    using assms by (simp add: sites_import_replace registry_ok_def)
next
  show "registry_ok (sites (snd (handleFileImport now rnd (Some (Some (JArr cs))) False st)))
            \<longleftrightarrow> registry_ok (filter (\<lambda>x. url x \<notin> url ` set (sites st)) (validSites now rnd cs))
                 \<and> id' ` set (filter (\<lambda>x. url x \<notin> url ` set (sites st)) (validSites now rnd cs))
                     \<inter> id' ` set (sites st) = {}"
    using assms by (auto simp: merge_sites registry_ok_append)
qed

theorem registry_invariant_preserved_witness:
  "registry_ok (sites (deleteSite (site_named ''github'') (initial_app 0 DEFAULT_SITES)))
   \<and> registry_ok (sites (handleDrop (Some 2) False (handleDragStart (Some 0) (initial_app 0 DEFAULT_SITES))))
   \<and> registry_ok (sites (saveSite 0 ''abc'' '' Example '' ''example.com '' (initial_app 0 DEFAULT_SITES)))
   \<and> sites (saveSite 0 ''abc'' '' Example '' ''example.com '' (initial_app 0 DEFAULT_SITES))
      = DEFAULT_SITES @ [\<lparr>id' = JStr (generateId 0 ''abc''), name = ''Example'',
          url = ''https://example.com'', color = JStr ''#4a9eff''\<rparr>]
   \<and> registry_ok (sites (snd (handleFileImport 0 demo_random (Some (Some (JArr demo_twins))) False
        (initial_app 0 DEFAULT_SITES))))
   \<and> \<not> registry_ok (sites (snd (handleFileImport 0 demo_random (Some (Some (JArr demo_bad_import))) True
        (initial_app 0 DEFAULT_SITES))))"
proof -
  let ?st = "initial_app 0 DEFAULT_SITES"
  have s: "sites ?st = DEFAULT_SITES" "sites (handleDragStart (Some 0) ?st) = DEFAULT_SITES"
    "selectedColor ?st = ''#4a9eff''"
    by (simp_all add: initial_app_def handleDragStart_def)
  have ok: "registry_ok (sites ?st)" "registry_ok (sites (handleDragStart (Some 0) ?st))"
    by (simp_all only: s registry_ok_DEFAULT_SITES)
  have ne: "\<not> editing ?st"
    by (simp add: editing_def initial_app_def)
  have fresh: "JStr (generateId 0 ''abc'') \<notin> id' ` set (sites ?st)"
    by (simp add: initial_app_def DEFAULT_SITES_def generateId_def)
  have tr: "trim '' Example '' = ''Example''" "trim ''example.com '' = ''example.com''"
    by (simp_all add: trim_def white_space_def)
  have ns: "\<not> has_scheme ''example.com''"
    by (simp add: has_scheme_def startsWith_def)
  have v: "validSites 0 demo_random demo_twins =
     [\<lparr>id' = JStr ''n1'', name = ''First'', url = ''https://new.test'', color = JStr ''#4a9eff''\<rparr>,
      \<lparr>id' = JStr ''n2'', name = ''Second'', url = ''https://new.test'', color = JStr ''#4a9eff''\<rparr>]"
    by (simp add: validSites_def demo_twins_def valid_candidate_def or_default_def Let_def)
  have new: "filter (\<lambda>x. url x \<notin> url ` set (sites ?st)) (validSites 0 demo_random demo_twins)
      = validSites 0 demo_random demo_twins"
    by (simp add: v initial_app_def DEFAULT_SITES_def)
  have vok: "registry_ok (validSites 0 demo_random demo_twins)"
    by (simp add: v registry_ok_def site_ok_def has_scheme_def startsWith_def)
  have apart: "id' ` set (validSites 0 demo_random demo_twins) \<inter> id' ` set (sites ?st) = {}"
    by (simp add: v initial_app_def DEFAULT_SITES_def)
  have bad: "\<not> registry_ok (validSites 0 demo_random demo_bad_import)"
    by (simp add: validSites_def demo_bad_import_def valid_candidate_def or_default_def Let_def
        registry_ok_def site_ok_def)
  note main = registry_invariant_preserved [OF ok(1), where s = "site_named ''github''"
      and now = 0 and r = "''abc''" and siteName = "'' Example ''" and siteUrl = "''example.com ''"
      and rnd = demo_random]
  note drag = registry_invariant_preserved [OF ok(2), where target = "Some 2" and isAbove = False]
  have 1: "registry_ok (sites (deleteSite (site_named ''github'') ?st))"
    using main by blast
  have 2: "registry_ok (sites (handleDrop (Some 2) False (handleDragStart (Some 0) ?st)))"
    using drag by blast
  have prem: "\<not> editing ?st \<and> trim '' Example '' \<noteq> [] \<and> trim ''example.com '' \<noteq> []"
    using ne by (simp add: tr)
  note five = main [THEN conjunct2, THEN conjunct2, THEN conjunct2, THEN conjunct2, THEN conjunct1,
      rule_format, OF prem]
  note add = five [THEN conjunct1]
  note iff = five [THEN conjunct2, THEN conjunct2]
  from iff fresh have 3: "registry_ok (sites (saveSite 0 ''abc'' '' Example '' ''example.com '' ?st))"
    by blast
  from add have 4: "sites (saveSite 0 ''abc'' '' Example '' ''example.com '' ?st)
      = DEFAULT_SITES @ [\<lparr>id' = JStr (generateId 0 ''abc''), name = ''Example'',
          url = ''https://example.com'', color = JStr ''#4a9eff''\<rparr>]"
    by (simp add: tr ns s)
  have 5: "registry_ok (sites (snd (handleFileImport 0 demo_random (Some (Some (JArr demo_twins))) False ?st)))"
    using main [where cs = demo_twins] vok apart by (simp only: new simp_thms)
  have 6: "\<not> registry_ok (sites (snd (handleFileImport 0 demo_random (Some (Some (JArr demo_bad_import))) True ?st)))"
    using main [where cs = demo_bad_import] bad by blast
  from 1 2 3 4 5 6 show ?thesis by (simp only: simp_thms)
qed

subsection \<open>Ids and colours are true values\<close>

lemma generateId_nonempty: "generateId now r \<noteq> []"
  by (simp add: generateId_def)

lemma fields_truthy_DEFAULT_SITES: "fields_truthy DEFAULT_SITES"
  by (simp add: fields_truthy_def DEFAULT_SITES_def)

lemma fields_truthy_to_sites: "fields_truthy (to_sites now rnd k cs)"
proof (induction cs arbitrary: k)
  case Nil
  show ?case by (simp add: fields_truthy_def)
next
  case (Cons c cs)
  have "truthy (or_default (get_prop c ''color'') (JStr ''#4a9eff''))"
    by (simp add: or_default_def split: option.splits)
  moreover have "truthy (or_default (get_prop c ''id'') JNull)"
    if "case get_prop c ''id'' of None \<Rightarrow> False | Some v \<Rightarrow> truthy v"
    using that by (auto simp: or_default_def split: option.splits)
  ultimately show ?case
    using Cons.IH by (simp add: fields_truthy_def Let_def generateId_nonempty)
qed

lemma fields_truthy_mset: "mset xs = mset ys \<Longrightarrow> fields_truthy xs = fields_truthy ys"
  using mset_eq_setD [of xs ys] by (simp add: fields_truthy_def list_all_iff)

lemma fields_truthy_preserved:
  assumes "fields_truthy (sites st)"
  shows "fields_truthy (sites (deleteSite s st))"
    and "fields_truthy (sites (handleDrop target isAbove st))"
    and "selectedColor st \<noteq> [] \<Longrightarrow> fields_truthy (sites (saveSite now r siteName siteUrl st))"
    and "fields_truthy (sites (snd (handleFileImport now rnd file replace st)))"
proof -
  show "fields_truthy (sites (deleteSite s st))"
    using assms by (simp add: sites_deleteSite fields_truthy_def list_all_iff)
  show "fields_truthy (sites (handleDrop target isAbove st))"
    using assms fields_truthy_mset [OF handleDrop_mset] by blast
  show "fields_truthy (sites (saveSite now r siteName siteUrl st))" if col: "selectedColor st \<noteq> []"
  proof (cases "trim siteName = [] \<or> trim siteUrl = []")
    case True
    then show ?thesis using assms by (simp add: saveSite_rejects)
  next
    case False
    show ?thesis
    proof (cases "editing st")
      case False
      with \<open>\<not> (trim siteName = [] \<or> trim siteUrl = [])\<close> assms col show ?thesis
        by (simp add: sites_saveSite_add fields_truthy_def generateId_nonempty)
    next
      case True
      show ?thesis
      proof (cases "findIndex (\<lambda>s. Some (id' s) = editingSiteId st) (sites st)")
        case None
        with True \<open>\<not> (trim siteName = [] \<or> trim siteUrl = [])\<close> assms show ?thesis
          by (simp add: saveSite_def Let_def editing_def)
      next
        case (Some k)
        then have k: "k < length (sites st)" by (simp add: findIndex_Some)
        let ?y = "(sites st ! k)\<lparr>name := trim siteName,
           url := (if has_scheme (trim siteUrl) then trim siteUrl else ''https://'' @ trim siteUrl),
           color := JStr (selectedColor st)\<rparr>"
        have "truthy (id' ?y) \<and> truthy (color ?y)"
          using assms k col by (simp add: fields_truthy_def list_all_length)
        moreover have "set ((sites st)[k := ?y]) \<subseteq> insert ?y (set (sites st))"
          by (rule set_update_subset_insert)
        ultimately have "fields_truthy ((sites st)[k := ?y])"
          using assms by (auto simp: fields_truthy_def list_all_iff)
        moreover have "sites (saveSite now r siteName siteUrl st) = (sites st)[k := ?y]"
          using \<open>\<not> (trim siteName = [] \<or> trim siteUrl = [])\<close> True Some
          by (intro sites_saveSite_edit) simp_all
        ultimately show ?thesis by simp
      qed
    qed
  qed
  show "fields_truthy (sites (snd (handleFileImport now rnd file replace st)))"
  proof -
    have v: "fields_truthy (validSites now rnd cs)" for cs
      by (simp add: validSites_def fields_truthy_to_sites)
    have "fields_truthy (filter P (validSites now rnd cs))" for P cs
      using v [of cs] by (simp add: fields_truthy_def list_all_iff)
    with v assms show ?thesis
      by (auto simp: handleFileImport_def Let_def fields_truthy_def
          split: option.splits jsval.splits)
  qed
qed

section \<open>Properties of hibernation\<close>

lemma resetActivityTimer_awake: "\<not> isHibernated (resetActivityTimer now st)"
  by (simp add: resetActivityTimer_def wakeFromHibernate_def clearTimeout_def setTimeout_def
      Let_def split: option.splits)

lemma resetActivityTimer_currentSiteUrl:
  "currentSiteUrl (resetActivityTimer now st) = currentSiteUrl st"
  by (simp add: resetActivityTimer_def wakeFromHibernate_def clearTimeout_def setTimeout_def
      Let_def split: option.splits)

lemma resetActivityTimer_lastActivityTime:
  "lastActivityTime (resetActivityTimer now st) = now"
  by (simp add: resetActivityTimer_def wakeFromHibernate_def clearTimeout_def setTimeout_def
      Let_def split: option.splits)

lemma resetActivityTimer_timers:
  "timers (resetActivityTimer now st) =
     (case hibernateTimer st of
        None \<Rightarrow> timers st
      | Some h \<Rightarrow> if h \<noteq> 0 then filter (\<lambda>t. fst t \<noteq> h) (timers st) else timers st)
     @ [(Suc (lastTimerId st), now + HIBERNATE_TIMEOUT)]"
  by (simp add: resetActivityTimer_def wakeFromHibernate_def clearTimeout_def setTimeout_def
      Let_def split: option.splits)

lemma resetActivityTimer_hibernateTimer:
  "hibernateTimer (resetActivityTimer now st) = Some (Suc (lastTimerId st))"
  by (simp add: resetActivityTimer_def wakeFromHibernate_def clearTimeout_def setTimeout_def
      Let_def split: option.splits)

lemma resetActivityTimer_wakes:
  assumes "isHibernated st" "hibernatedUrl st = Some u" "u \<noteq> []"
  shows "webFrame_src (resetActivityTimer now st) = u"
    and "hibernatedUrl (resetActivityTimer now st) = None"
    and "\<not> overlayShown (resetActivityTimer now st)"
  using assms
  by (simp_all add: resetActivityTimer_def wakeFromHibernate_def clearTimeout_def setTimeout_def
      Let_def split: option.splits)

lemma checkHibernate_early:
  "now - lastActivityTime st < HIBERNATE_TIMEOUT \<Longrightarrow> checkHibernate now st = st"
  by (simp add: checkHibernate_def Let_def)

lemma checkHibernate_due:
  assumes "HIBERNATE_TIMEOUT \<le> now - lastActivityTime st" "currentSiteUrl st = Some u" "u \<noteq> []"
    "\<not> isHibernated st"
  shows "checkHibernate now st = st\<lparr>isHibernated := True, hibernatedUrl := Some u,
     webFrame_src := ''about:blank'', overlayShown := True\<rparr>"
  using assms by (simp add: checkHibernate_def hibernate_def Let_def)

lemma timerFires_cases:
  "timerFires now st = st \<or>
   (\<exists>t. t \<in> set (timers st) \<and> snd t \<le> now \<and>
        timerFires now st = checkHibernate now (st\<lparr>timers := remove1 t (timers st)\<rparr>))"
proof (cases "filter (\<lambda>t. snd t \<le> now) (timers st)")
  case Nil
  then show ?thesis by (simp add: timerFires_def)
next
  case (Cons t ts)
  then have "t \<in> set (filter (\<lambda>t. snd t \<le> now) (timers st))" by simp
  then have "t \<in> set (timers st) \<and> snd t \<le> now" by simp
  moreover from Cons
  have "timerFires now st = checkHibernate now (st\<lparr>timers := remove1 t (timers st)\<rparr>)"
    by (simp add: timerFires_def)
  ultimately show ?thesis by blast
qed

lemma timerFires_due:
  assumes "t \<in> set (timers st)" "snd t \<le> now"
  shows "\<exists>t'. t' \<in> set (timers st) \<and> snd t' \<le> now \<and>
        timerFires now st = checkHibernate now (st\<lparr>timers := remove1 t' (timers st)\<rparr>)"
proof (cases "filter (\<lambda>t. snd t \<le> now) (timers st)")
  case Nil
  with assms have False by (auto simp: filter_empty_conv)
  then show ?thesis ..
next
  case (Cons t' ts)
  then have "t' \<in> set (filter (\<lambda>t. snd t \<le> now) (timers st))" by simp
  then have "t' \<in> set (timers st) \<and> snd t' \<le> now" by simp
  moreover from Cons
  have "timerFires now st = checkHibernate now (st\<lparr>timers := remove1 t' (timers st)\<rparr>)"
    by (simp add: timerFires_def)
  ultimately show ?thesis by blast
qed

text \<open>
  Claim C6. The timeout is five minutes. After an activity signal at time \<open>act\<close>, with a
  site loaded, the page is awake, and a timeout that runs before \<open>act + 300 s\<close> does not
  hibernate it. When the idle timeout runs at \<open>act + 300 s\<close> or later, with no activity in
  between, the page is hibernated, the address of the loaded site is kept in
  \<^verbatim>\<open>hibernatedUrl\<close> and the frame is blank. The next activity signal, at any time
  \<open>t'\<close>, wakes the page, loads the kept address into the frame and clears
  \<^verbatim>\<open>hibernatedUrl\<close>.
\<close>

theorem hibernate_after_idle:
  assumes "currentSiteUrl st = Some u" "u \<noteq> []"
  shows "HIBERNATE_TIMEOUT = 300 * 1000
       \<and> \<not> isHibernated (resetActivityTimer act st)
       \<and> (t < act + HIBERNATE_TIMEOUT \<longrightarrow> \<not> isHibernated (timerFires t (resetActivityTimer act st)))
       \<and> (act + HIBERNATE_TIMEOUT \<le> t \<longrightarrow>
            isHibernated (timerFires t (resetActivityTimer act st))
            \<and> hibernatedUrl (timerFires t (resetActivityTimer act st)) = Some u
            \<and> webFrame_src (timerFires t (resetActivityTimer act st)) = ''about:blank''
            \<and> \<not> isHibernated (resetActivityTimer t' (timerFires t (resetActivityTimer act st)))
            \<and> webFrame_src (resetActivityTimer t' (timerFires t (resetActivityTimer act st))) = u
            \<and> hibernatedUrl (resetActivityTimer t' (timerFires t (resetActivityTimer act st))) = None)"
proof -
  define s1 where "s1 = resetActivityTimer act st"
  have awake: "\<not> isHibernated s1"
    and url: "currentSiteUrl s1 = Some u"
    and last: "lastActivityTime s1 = act"
    using assms
    by (simp_all add: s1_def resetActivityTimer_awake resetActivityTimer_currentSiteUrl
        resetActivityTimer_lastActivityTime)
  have pending: "(Suc (lastTimerId st), act + HIBERNATE_TIMEOUT) \<in> set (timers s1)"
    by (simp add: s1_def resetActivityTimer_timers)
  have early: "\<not> isHibernated (timerFires t s1)" if "t < act + HIBERNATE_TIMEOUT"
  proof -
    have "checkHibernate t (s1\<lparr>timers := ts\<rparr>) = s1\<lparr>timers := ts\<rparr>" for ts
      using that last by (intro checkHibernate_early) simp
    with timerFires_cases [of t s1] awake show ?thesis by auto
  qed
  have asleep: "isHibernated (timerFires t s1) \<and> hibernatedUrl (timerFires t s1) = Some u
      \<and> webFrame_src (timerFires t s1) = ''about:blank''"
    if "act + HIBERNATE_TIMEOUT \<le> t"
  proof -
    from timerFires_due [OF pending, of t] that obtain tm where
      tm: "timerFires t s1 = checkHibernate t (s1\<lparr>timers := remove1 tm (timers s1)\<rparr>)"
      by auto
    have "checkHibernate t (s1\<lparr>timers := remove1 tm (timers s1)\<rparr>)
        = s1\<lparr>timers := remove1 tm (timers s1), isHibernated := True, hibernatedUrl := Some u,
            webFrame_src := ''about:blank'', overlayShown := True\<rparr>"
      using that last url awake assms(2) by (intro checkHibernate_due) simp_all
    with tm have "timerFires t s1
        = s1\<lparr>timers := remove1 tm (timers s1), isHibernated := True, hibernatedUrl := Some u,
            webFrame_src := ''about:blank'', overlayShown := True\<rparr>"
      by (rule trans)
    then show ?thesis by simp
  qed
  have woken: "\<not> isHibernated (resetActivityTimer t' (timerFires t s1))
      \<and> webFrame_src (resetActivityTimer t' (timerFires t s1)) = u
      \<and> hibernatedUrl (resetActivityTimer t' (timerFires t s1)) = None"
    if "act + HIBERNATE_TIMEOUT \<le> t"
    using asleep [OF that] assms(2)
    by (simp add: resetActivityTimer_awake resetActivityTimer_wakes)
  have "HIBERNATE_TIMEOUT = 300 * 1000" by (simp add: HIBERNATE_TIMEOUT_def)
  with awake early asleep woken show ?thesis
    unfolding s1_def by blast
qed


theorem hibernate_after_idle_witness:
  "\<not> isHibernated (timerFires 299999 (resetActivityTimer 0 demo_loaded))
   \<and> isHibernated (timerFires 300000 (resetActivityTimer 0 demo_loaded))
   \<and> hibernatedUrl (timerFires 300000 (resetActivityTimer 0 demo_loaded)) = Some ''https://github.com''
   \<and> \<not> isHibernated (resetActivityTimer 301000 (timerFires 300000 (resetActivityTimer 0 demo_loaded)))
   \<and> webFrame_src (resetActivityTimer 301000 (timerFires 300000 (resetActivityTimer 0 demo_loaded)))
       = ''https://github.com''
   \<and> hibernatedUrl (resetActivityTimer 301000 (timerFires 300000 (resetActivityTimer 0 demo_loaded))) = None"
proof -
  have u: "currentSiteUrl demo_loaded = Some ''https://github.com''" "''https://github.com'' \<noteq> []"
    by (simp_all add: demo_loaded_def initial_app_def)
  have before: "(299999::int) < 0 + HIBERNATE_TIMEOUT" and after: "0 + HIBERNATE_TIMEOUT \<le> (300000::int)"
    by (simp_all add: HIBERNATE_TIMEOUT_def)
  from hibernate_after_idle [OF u, where t = 299999 and act = 0 and t' = 301000] before
  have "\<not> isHibernated (timerFires 299999 (resetActivityTimer 0 demo_loaded))"
    by blast
  with hibernate_after_idle [OF u, where t = 300000 and act = 0 and t' = 301000] after
  show ?thesis by blast
qed

lemma timerFires_idle:
  assumes "\<not> is_set (currentSiteUrl st)"
  shows "timerFires now st =
     (case filter (\<lambda>t. snd t \<le> now) (timers st) of
        [] \<Rightarrow> st
      | t # ts \<Rightarrow> st\<lparr>timers := remove1 t (timers st)\<rparr>)"
  using assms by (simp add: timerFires_def checkHibernate_def Let_def split: list.splits)

text \<open>
  Claim C9 as stated fails in its last part: \<^verbatim>\<open>checkHibernate\<close> never calls
  \<^verbatim>\<open>setTimeout\<close>. With no site loaded, the activity at time 0 leaves one timeout, due
  at 300 s; once it has run, no timeout is pending.
\<close>

theorem idle_timer_not_restarted:
  "currentSiteUrl demo_blank = None
   \<and> timers (resetActivityTimer 0 demo_blank) = [(1, 300000)]
   \<and> timers (timerFires 300000 (resetActivityTimer 0 demo_blank)) = []"
proof -
  have a: "currentSiteUrl demo_blank = None"
    by (simp add: demo_blank_def initial_app_def)
  have b: "timers (resetActivityTimer 0 demo_blank) = [(1, 300000)]"
    by (simp add: resetActivityTimer_timers demo_blank_def initial_app_def HIBERNATE_TIMEOUT_def)
  have "\<not> is_set (currentSiteUrl (resetActivityTimer 0 demo_blank))"
    by (simp add: resetActivityTimer_currentSiteUrl a)
  then have "timers (timerFires 300000 (resetActivityTimer 0 demo_blank)) = []"
    by (simp add: timerFires_idle b)
  with a b show ?thesis by simp
qed

text \<open>
  Claim C9, amended. When the idle timeout runs while no site is loaded, nothing changes
  but the pending timeouts: the page is hibernated or awake as before, the timeout that ran
  is spent, and no timeout is added. The timeout is started again by the next activity
  signal only, for a full period from that signal.
\<close>

theorem idle_fire_without_content:
  assumes "\<not> is_set (currentSiteUrl st)"
  shows "timerFires now st = st\<lparr>timers := timers (timerFires now st)\<rparr>
       \<and> isHibernated (timerFires now st) = isHibernated st
       \<and> timers (timerFires now st) =
           (case filter (\<lambda>t. snd t \<le> now) (timers st) of
              [] \<Rightarrow> timers st
            | t # ts \<Rightarrow> remove1 t (timers st))
       \<and> set (timers (timerFires now st)) \<subseteq> set (timers st)
       \<and> (filter (\<lambda>t. snd t \<le> now) (timers st) \<noteq> [] \<longrightarrow>
            length (timers (timerFires now st)) < length (timers st))
       \<and> timers (resetActivityTimer t' (timerFires now st)) =
           (case hibernateTimer st of
              None \<Rightarrow> timers (timerFires now st)
            | Some h \<Rightarrow>
                if h \<noteq> 0 then filter (\<lambda>t. fst t \<noteq> h) (timers (timerFires now st))
                else timers (timerFires now st))
           @ [(Suc (lastTimerId st), t' + HIBERNATE_TIMEOUT)]"
proof (cases "filter (\<lambda>t. snd t \<le> now) (timers st)")
  case Nil
  with assms have eq: "timerFires now st = st"
    by (simp add: timerFires_idle)
  show ?thesis
    unfolding eq using Nil
    by (simp add: resetActivityTimer_timers)
next
  case (Cons tm ts)
  with assms have eq: "timerFires now st = st\<lparr>timers := remove1 tm (timers st)\<rparr>"
    by (simp add: timerFires_idle)
  have "tm \<in> set (filter (\<lambda>t. snd t \<le> now) (timers st))"
    using Cons by simp
  then have mem: "tm \<in> set (timers st)" by simp
  then have len: "length (remove1 tm (timers st)) < length (timers st)"
    by (simp add: length_remove1) (cases "timers st", simp_all)
  have sub: "set (remove1 tm (timers st)) \<subseteq> set (timers st)"
    by (rule set_remove1_subset)
  show ?thesis
    unfolding eq using Cons len sub
    by (simp add: resetActivityTimer_timers)
qed

theorem idle_fire_without_content_witness:
  "\<not> isHibernated (timerFires 300000 (resetActivityTimer 0 demo_blank))
   \<and> timers (timerFires 300000 (resetActivityTimer 0 demo_blank)) = []
   \<and> timers (resetActivityTimer 301000 (timerFires 300000 (resetActivityTimer 0 demo_blank)))
       = [(2, 601000)]"
proof -
  let ?s = "resetActivityTimer 0 demo_blank"
  have idle: "\<not> is_set (currentSiteUrl ?s)"
    by (simp add: resetActivityTimer_currentSiteUrl demo_blank_def initial_app_def)
  have t: "timers ?s = [(1, 300000)]"
    by (simp add: resetActivityTimer_timers demo_blank_def initial_app_def HIBERNATE_TIMEOUT_def)
  have h: "hibernateTimer ?s = Some 1" "lastTimerId ?s = 1"
    by (simp_all add: resetActivityTimer_def wakeFromHibernate_def clearTimeout_def setTimeout_def
        Let_def demo_blank_def initial_app_def)
  note w = idle_fire_without_content [OF idle, where now = 300000 and t' = 301000]
  from w have "isHibernated (timerFires 300000 ?s) = isHibernated ?s" by blast
  then have 1: "\<not> isHibernated (timerFires 300000 ?s)"
    by (simp add: resetActivityTimer_awake)
  from w have "timers (timerFires 300000 ?s) =
      (case filter (\<lambda>t. snd t \<le> 300000) (timers ?s) of [] \<Rightarrow> timers ?s
       | t # ts \<Rightarrow> remove1 t (timers ?s))"
    by blast
  then have 2: "timers (timerFires 300000 ?s) = []"
    by (simp add: t)
  from w have "timers (resetActivityTimer 301000 (timerFires 300000 ?s)) =
      (case hibernateTimer ?s of None \<Rightarrow> timers (timerFires 300000 ?s)
       | Some h \<Rightarrow> if h \<noteq> 0 then filter (\<lambda>t. fst t \<noteq> h) (timers (timerFires 300000 ?s))
           else timers (timerFires 300000 ?s))
      @ [(Suc (lastTimerId ?s), 301000 + HIBERNATE_TIMEOUT)]"
    by blast
  then have 3: "timers (resetActivityTimer 301000 (timerFires 300000 ?s)) = [(2, 601000)]"
    by (simp add: 2 h HIBERNATE_TIMEOUT_def)
  from 1 2 3 show ?thesis by simp
qed

end
